theory Spec2Isabelle
  imports Main "HOL-Library.Sublist"
begin

section \<open>JavaScript strings and values\<close>

text \<open>
  Strings are \<^typ>\<open>string\<close>: a character stands for a UTF-16 code unit below 256
  (ASCII and Latin-1). On these, \<open>trim\<close>, \<open>trimStart\<close>, \<open>trimEnd\<close> and the regular
  expression class \<open>\s\<close> remove tab, line feed, vertical tab, form feed, carriage
  return, space and the no-break space U+00A0.
\<close>

definition is_ws :: "char \<Rightarrow> bool" where
  "is_ws c =
     (c \<in> set [CHR 0x09, CHR 0x0A, CHR 0x0B, CHR 0x0C, CHR 0x0D, CHR 0x20, CHR 0xA0])"

definition trimStart :: "string \<Rightarrow> string" where
  "trimStart s = dropWhile is_ws s"

definition trimEnd :: "string \<Rightarrow> string" where
  "trimEnd s = rev (dropWhile is_ws (rev s))"

definition trim :: "string \<Rightarrow> string" where
  "trim s = trimEnd (trimStart s)"

text \<open>
  \<open>toLowerCase\<close> maps \<open>A\<close>..\<open>Z\<close> to \<open>a\<close>..\<open>z\<close> and the Latin-1 capitals U+00C0..U+00DE
  (without the multiplication sign U+00D7) to the letters 32 code units higher; every
  other character below 256 is left alone.
\<close>

definition upper_chars :: "char list" where
  "upper_chars =
     ''ABCDEFGHIJKLMNOPQRSTUVWXYZ'' @
     [CHR 0xC0, CHR 0xC1, CHR 0xC2, CHR 0xC3, CHR 0xC4, CHR 0xC5, CHR 0xC6, CHR 0xC7,
      CHR 0xC8, CHR 0xC9, CHR 0xCA, CHR 0xCB, CHR 0xCC, CHR 0xCD, CHR 0xCE, CHR 0xCF,
      CHR 0xD0, CHR 0xD1, CHR 0xD2, CHR 0xD3, CHR 0xD4, CHR 0xD5, CHR 0xD6,
      CHR 0xD8, CHR 0xD9, CHR 0xDA, CHR 0xDB, CHR 0xDC, CHR 0xDD, CHR 0xDE]"

definition lower_chars :: "char list" where
  "lower_chars =
     ''abcdefghijklmnopqrstuvwxyz'' @
     [CHR 0xE0, CHR 0xE1, CHR 0xE2, CHR 0xE3, CHR 0xE4, CHR 0xE5, CHR 0xE6, CHR 0xE7,
      CHR 0xE8, CHR 0xE9, CHR 0xEA, CHR 0xEB, CHR 0xEC, CHR 0xED, CHR 0xEE, CHR 0xEF,
      CHR 0xF0, CHR 0xF1, CHR 0xF2, CHR 0xF3, CHR 0xF4, CHR 0xF5, CHR 0xF6,
      CHR 0xF8, CHR 0xF9, CHR 0xFA, CHR 0xFB, CHR 0xFC, CHR 0xFD, CHR 0xFE]"

definition toLowerChar :: "char \<Rightarrow> char" where
  "toLowerChar c =
     (case map_of (zip upper_chars lower_chars) c of None \<Rightarrow> c | Some l \<Rightarrow> l)"

definition toLowerCase :: "string \<Rightarrow> string" where
  "toLowerCase s = map toLowerChar s"

text \<open>\<open>s.includes(t)\<close>: \<open>t\<close> occurs in \<open>s\<close> as a contiguous substring.\<close>

fun str_includes :: "string \<Rightarrow> string \<Rightarrow> bool" where
  "str_includes [] t = (t = [])"
| "str_includes (c # s) t = (prefix t (c # s) \<or> str_includes s t)"

text \<open>\<open>xs.join(sep)\<close> on an array of strings.\<close>

fun join :: "string \<Rightarrow> string list \<Rightarrow> string" where
  "join sep [] = []"
| "join sep [x] = x"
| "join sep (x # y # ys) = x @ sep @ join sep (y # ys)"

text \<open>The decimal rendering of a non-negative integer in a template literal.\<close>

fun show_nat :: "nat \<Rightarrow> string" where
  "show_nat n =
     (if n < 10 then [''0123456789'' ! n]
      else show_nat (n div 10) @ [''0123456789'' ! (n mod 10)])"

declare show_nat.simps [simp del]


text \<open>\<open>s.replace(/\s+/g, " ")\<close>: every maximal run of whitespace becomes one space.\<close>

function collapse_ws :: "string \<Rightarrow> string" where
  "collapse_ws [] = []"
| "collapse_ws (c # cs) =
     (if is_ws c then CHR '' '' # collapse_ws (dropWhile is_ws cs) else c # collapse_ws cs)"
  by pat_completeness auto

termination
proof (relation "measure length")
  show "wf (measure length)" by simp
next
  fix c :: char and cs :: string
  show "(dropWhile is_ws cs, c # cs) \<in> measure length"
    using length_dropWhile_le [of is_ws cs] by simp
next
  fix c :: char and cs :: string
  show "(cs, c # cs) \<in> measure length" by simp
qed


section \<open>Pairing reply (pairing-messages.ts)\<close>

definition buildPairingReply :: "string \<Rightarrow> string \<Rightarrow> string \<Rightarrow> string" where
  "buildPairingReply provider idLine code =
     join [CHR 0x0A]
       [''Clawdbot: access not configured.'',
        '''',
        idLine,
        '''',
        ''Pairing code: '' @ code,
        '''',
        ''Ask the bot owner to approve with:'',
        ''clawdbot pairing approve '' @ provider @ '' <code>'']"

text \<open>
  The reply text of the specification's section 6, with the provider and the pairing
  code substituted for both of its \<open><provider>\<close> and \<open><code>\<close> placeholders.
\<close>

definition pairing_reply_template :: "string \<Rightarrow> string \<Rightarrow> string \<Rightarrow> string" where
  "pairing_reply_template provider idLine code =
     ''Clawdbot: access not configured.'' @ [CHR 0x0A, CHR 0x0A] @
     idLine @ [CHR 0x0A, CHR 0x0A] @
     ''Pairing code: '' @ code @ [CHR 0x0A, CHR 0x0A] @
     ''Ask the bot owner to approve with:'' @ [CHR 0x0A] @
     ''clawdbot pairing approve '' @ provider @ '' '' @ code"


section \<open>Cron schedules (cron/schedule.ts)\<close>








section \<open>Persisting the session store and the cron store\<close>





















section \<open>Model fallback (agents/model-fallback)\<close>

definition DEFAULT_PROVIDER :: string where
  "DEFAULT_PROVIDER = ''anthropic''"

definition DEFAULT_MODEL :: string where
  "DEFAULT_MODEL = ''claude-sonnet-4-20250514''"

record ModelCandidate =
  mc_provider :: string
  mc_model :: string

record FallbackAttempt =
  fa_provider :: string
  fa_model :: string
  fa_error :: string

text \<open>
  A thrown value, as far as the code looks at it: an \<open>Error\<close> instance with its name
  and message; another object, with \<open>String(err.name)\<close> when it has a \<open>name\<close>
  property, its \<open>message\<close> when that is a string, and \<open>String(err)\<close>; or a value that
  is not an object (or is \<open>null\<close>), with its truthiness and \<open>String(err)\<close>.
\<close>

datatype thrown =
    ErrorInstance string string
  | OtherObject "string option" "string option" string
  | Primitive bool string

fun isAbortError :: "thrown \<Rightarrow> bool" where
  "isAbortError (Primitive truthy str) = False"
| "isAbortError (ErrorInstance name message) =
     (if name = ''AbortError'' then True
      else str_includes (toLowerCase message) ''aborted'')"
| "isAbortError (OtherObject name message str) =
     (if (case name of None \<Rightarrow> '''' | Some n \<Rightarrow> n) = ''AbortError'' then True
      else str_includes (toLowerCase (case message of None \<Rightarrow> '''' | Some m \<Rightarrow> m)) ''aborted'')"

text \<open>\<open>err instanceof Error ? err.message : String(err)\<close>, and the truthiness of \<open>err\<close>.\<close>

fun error_text :: "thrown \<Rightarrow> string" where
  "error_text (ErrorInstance name message) = message"
| "error_text (OtherObject name message str) = str"
| "error_text (Primitive truthy str) = str"

fun thrown_truthy :: "thrown \<Rightarrow> bool" where
  "thrown_truthy (Primitive truthy str) = truthy"
| "thrown_truthy e = True"

text \<open>
  Of the configuration the candidate chain reads \<open>agent.models\<close>, an object whose
  entries (in property order) map a key to a value with an optional \<open>alias\<close>, and
  \<open>agent.model.fallbacks\<close>. A missing part reads as empty, as the source's \<open>?? {}\<close> and
  \<open>?? []\<close> have it. The source casts the fallbacks to strings and applies
  \<open>String(raw ?? "")\<close> to each: an entry is a string, \<open>null\<close> or \<open>undefined\<close>, or an
  object (which \<open>String\<close> renders as \<open>[object Object]\<close>).
\<close>

datatype fallback_entry = FallbackString string | FallbackNullish | FallbackObject

fun fallback_text :: "fallback_entry \<Rightarrow> string" where
  "fallback_text (FallbackString s) = s"
| "fallback_text FallbackNullish = ''''"
| "fallback_text FallbackObject = ''[object Object]''"

record ClawdConfig =
  agent_models :: "(string \<times> string option) list"
  agent_model_fallbacks :: "fallback_entry list"

definition cfg_or_empty :: "ClawdConfig option \<Rightarrow> ClawdConfig" where
  "cfg_or_empty cfg =
     (case cfg of None \<Rightarrow> \<lparr>agent_models = [], agent_model_fallbacks = []\<rparr> | Some c \<Rightarrow> c)"

text \<open>
  \<open>trimmed.split("/", 2)\<close> destructured into \<open>[provider, model]\<close>: the text before the
  first slash, and the text between the first slash and the second (or the end).
\<close>

definition split_slash_2 :: "string \<Rightarrow> string \<times> string" where
  "split_slash_2 s =
     (takeWhile (\<lambda>c. c \<noteq> CHR ''/'') s,
      takeWhile (\<lambda>c. c \<noteq> CHR ''/'') (drop 1 (dropWhile (\<lambda>c. c \<noteq> CHR ''/'') s)))"

definition parseModelRef :: "string \<Rightarrow> string \<Rightarrow> ModelCandidate option" where
  "parseModelRef raw defaultProvider =
     (let trimmed = trim raw
      in if trimmed = [] then None
         else if str_includes trimmed ''/'' \<and>
                 fst (split_slash_2 trimmed) \<noteq> [] \<and> snd (split_slash_2 trimmed) \<noteq> []
         then Some \<lparr>mc_provider = trim (fst (split_slash_2 trimmed)),
                    mc_model = trim (snd (split_slash_2 trimmed))\<rparr>
         else Some \<lparr>mc_provider = defaultProvider, mc_model = trimmed\<rparr>)"

definition modelKey :: "string \<Rightarrow> string \<Rightarrow> string" where
  "modelKey provider model = provider @ ''/'' @ model"

definition buildModelAliasIndex :: "ClawdConfig \<Rightarrow> string \<Rightarrow> (string \<rightharpoonup> ModelCandidate)" where
  "buildModelAliasIndex cfg defaultProvider =
     foldl (\<lambda>index (key, value).
              case value of
                None \<Rightarrow> index
              | Some alias \<Rightarrow>
                  if alias = [] then index
                  else (case parseModelRef alias defaultProvider of
                          None \<Rightarrow> index
                        | Some parsed \<Rightarrow> index(toLowerCase key \<mapsto> parsed)))
           Map.empty (agent_models cfg)"

text \<open>The result pairs the reference with \<open>fromAlias\<close>.\<close>

definition resolveModelRef ::
  "string \<Rightarrow> string \<Rightarrow> (string \<rightharpoonup> ModelCandidate) \<Rightarrow> (ModelCandidate \<times> bool) option" where
  "resolveModelRef raw defaultProvider aliasIndex =
     (let trimmed = toLowerCase (trim raw)
      in if trimmed = [] then None
         else (case aliasIndex trimmed of
                 Some alias \<Rightarrow> Some (alias, True)
               | None \<Rightarrow>
                   (case parseModelRef raw defaultProvider of
                      Some parsed \<Rightarrow> Some (parsed, False)
                    | None \<Rightarrow> None)))"

text \<open>The set of allowed keys is kept as the list of its elements; \<open>null\<close> is \<open>None\<close>.\<close>

definition buildAllowedModelKeys :: "ClawdConfig option \<Rightarrow> string \<Rightarrow> string list option" where
  "buildAllowedModelKeys cfg defaultProvider =
     (let rawAllowlist = map fst (agent_models (cfg_or_empty cfg))
      in if rawAllowlist = [] then None
         else
           (let keys = List.map_filter
                         (\<lambda>raw. case parseModelRef raw defaultProvider of
                                  None \<Rightarrow> None
                                | Some parsed \<Rightarrow>
                                    Some (modelKey (mc_provider parsed) (mc_model parsed)))
                         rawAllowlist
            in if keys \<noteq> [] then Some keys else None))"

text \<open>
  \<open>addCandidate\<close> works on the two locals it closes over: the keys seen and the
  candidates collected.
\<close>

definition addCandidate ::
  "string list option \<Rightarrow> ModelCandidate \<Rightarrow> bool \<Rightarrow> string list \<times> ModelCandidate list
     \<Rightarrow> string list \<times> ModelCandidate list" where
  "addCandidate allowlist candidate enforceAllowlist st =
     (if mc_provider candidate = [] \<or> mc_model candidate = [] then st
      else
        (let key = modelKey (mc_provider candidate) (mc_model candidate)
         in if key \<in> set (fst st) then st
            else if enforceAllowlist \<and>
                    (case allowlist of None \<Rightarrow> False | Some allowed \<Rightarrow> key \<notin> set allowed)
            then st
            else (fst st @ [key], snd st @ [candidate])))"

definition resolveFallbackCandidates ::
  "ClawdConfig option \<Rightarrow> string \<Rightarrow> string \<Rightarrow> ModelCandidate list" where
  "resolveFallbackCandidates cfg provider0 model0 =
     (let provider = (if trim provider0 = [] then DEFAULT_PROVIDER else trim provider0);
          model = (if trim model0 = [] then DEFAULT_MODEL else trim model0);
          aliasIndex = buildModelAliasIndex (cfg_or_empty cfg) DEFAULT_PROVIDER;
          allowlist = buildAllowedModelKeys cfg DEFAULT_PROVIDER;
          primary = addCandidate allowlist \<lparr>mc_provider = provider, mc_model = model\<rparr> False ([], [])
      in snd (foldl (\<lambda>st raw.
                       case resolveModelRef (fallback_text raw) DEFAULT_PROVIDER aliasIndex of
                         None \<Rightarrow> st
                       | Some resolved \<Rightarrow> addCandidate allowlist (fst resolved) True st)
                    primary (agent_model_fallbacks (cfg_or_empty cfg))))"

text \<open>
  \<open>runWithModelFallback\<close>. The \<open>run\<close> callback is called at most once for a candidate
  (candidates have distinct keys), so it is a function from provider and model to what
  the awaited promise does: reject with a thrown value or resolve with a result. The
  optional \<open>onError\<close> callback may throw too. The function ends by returning, by throwing
  a value it caught (\<open>Rethrown\<close>), or by throwing the new \<open>Error\<close> with the message
  "All models failed ..." and a \<open>cause\<close>. The calls made to both callbacks are recorded.
\<close>

record OnErrorInfo =
  oe_provider :: string
  oe_model :: string
  oe_error :: thrown
  oe_attempt :: nat
  oe_total :: nat

datatype fallback_call = RunCall string string | OnErrorCall OnErrorInfo

datatype 'a fallback_outcome =
    Returned 'a string string "FallbackAttempt list"
      \<comment> \<open>\<open>{result, provider, model, attempts}\<close>\<close>
  | Rethrown thrown
  | AllModelsFailed string "thrown option"

definition attempt_summary :: "FallbackAttempt \<Rightarrow> string" where
  "attempt_summary attempt = fa_provider attempt @ ''/'' @ fa_model attempt @ '': '' @ fa_error attempt"

text \<open>
  The code after the loop. \<open>lastError\<close> is \<open>None\<close> while it was never assigned.
  First the aggregated error, then the test that throws the original error instead.
\<close>

definition aggregated_error :: "nat \<Rightarrow> FallbackAttempt list \<Rightarrow> thrown option \<Rightarrow> 'a fallback_outcome" where
  "aggregated_error total_candidates attempts lastError =
     (let summary = (if length attempts > 0 then join '' | '' (map attempt_summary attempts)
                     else ''unknown'')
      in AllModelsFailed
           (''All models failed ('' @
              show_nat (if length attempts \<noteq> 0 then length attempts else total_candidates) @
              ''): '' @ summary)
           (case lastError of
              Some (ErrorInstance name message) \<Rightarrow> Some (ErrorInstance name message)
            | _ \<Rightarrow> None))"

definition after_loop :: "nat \<Rightarrow> FallbackAttempt list \<Rightarrow> thrown option \<Rightarrow> 'a fallback_outcome" where
  "after_loop total_candidates attempts lastError =
     (case lastError of
        Some e \<Rightarrow>
          if length attempts \<le> 1 \<and> thrown_truthy e then Rethrown e
          else aggregated_error total_candidates attempts lastError
      | None \<Rightarrow> aggregated_error total_candidates attempts lastError)"

fun fallback_loop ::
  "(string \<Rightarrow> string \<Rightarrow> thrown + 'a) \<Rightarrow> (OnErrorInfo \<Rightarrow> thrown option) option \<Rightarrow> nat
     \<Rightarrow> ModelCandidate list \<Rightarrow> nat \<Rightarrow> FallbackAttempt list \<Rightarrow> thrown option
     \<Rightarrow> fallback_call list \<Rightarrow> 'a fallback_outcome \<times> fallback_call list" where
  "fallback_loop run onError total_candidates [] i attempts lastError calls =
     (after_loop total_candidates attempts lastError, calls)"
| "fallback_loop run onError total_candidates (candidate # rest) i attempts lastError calls =
     (case run (mc_provider candidate) (mc_model candidate) of
        Inr result \<Rightarrow>
          (Returned result (mc_provider candidate) (mc_model candidate) attempts,
           calls @ [RunCall (mc_provider candidate) (mc_model candidate)])
      | Inl err \<Rightarrow>
          if isAbortError err
          then (Rethrown err, calls @ [RunCall (mc_provider candidate) (mc_model candidate)])
          else
            (let attempts' = attempts @
                   [\<lparr>fa_provider = mc_provider candidate, fa_model = mc_model candidate,
                     fa_error = error_text err\<rparr>];
                 info = \<lparr>oe_provider = mc_provider candidate, oe_model = mc_model candidate,
                         oe_error = err, oe_attempt = i + 1, oe_total = total_candidates\<rparr>
             in case onError of
                  None \<Rightarrow>
                    fallback_loop run onError total_candidates rest (i + 1) attempts' (Some err)
                      (calls @ [RunCall (mc_provider candidate) (mc_model candidate)])
                | Some handler \<Rightarrow>
                    (case handler info of
                       Some thrown_by_handler \<Rightarrow>
                         (Rethrown thrown_by_handler,
                          calls @ [RunCall (mc_provider candidate) (mc_model candidate),
                                   OnErrorCall info])
                     | None \<Rightarrow>
                         fallback_loop run onError total_candidates rest (i + 1) attempts' (Some err)
                           (calls @ [RunCall (mc_provider candidate) (mc_model candidate),
                                     OnErrorCall info]))))"

definition runWithModelFallback ::
  "ClawdConfig option \<Rightarrow> string \<Rightarrow> string \<Rightarrow> (string \<Rightarrow> string \<Rightarrow> thrown + 'a)
     \<Rightarrow> (OnErrorInfo \<Rightarrow> thrown option) option \<Rightarrow> 'a fallback_outcome \<times> fallback_call list" where
  "runWithModelFallback cfg provider model run onError =
     (let candidates = resolveFallbackCandidates cfg provider model
      in fallback_loop run onError (length candidates) candidates 0 [] None [])"

text \<open>The providers and models \<open>run\<close> was called with, in order.\<close>

fun run_calls :: "fallback_call list \<Rightarrow> (string \<times> string) list" where
  "run_calls [] = []"
| "run_calls (RunCall p m # cs) = (p, m) # run_calls cs"
| "run_calls (OnErrorCall info # cs) = run_calls cs"

text \<open>
  The scenario of the specification: \<open>openai\<close> fails with an ordinary error, every other
  provider answers; and a backend on which every model fails.
\<close>

definition run_openai_down :: "string \<Rightarrow> string \<Rightarrow> thrown + string" where
  "run_openai_down provider model =
     (if provider = ''openai'' then Inl (ErrorInstance ''Error'' ''rate limited'')
      else Inr (''reply from '' @ model))"

definition run_all_down :: "string \<Rightarrow> string \<Rightarrow> thrown + string" where
  "run_all_down provider model = Inl (ErrorInstance ''Error'' (''no route to '' @ provider))"

definition spec_fallback_cfg :: "ClawdConfig option" where
  "spec_fallback_cfg =
     Some \<lparr>agent_models = [],
           agent_model_fallbacks =
             [FallbackString ''anthropic/claude-y'', FallbackString ''google/gemini-z'']\<rparr>"

text \<open>
  The same fallbacks with an \<open>agent.models\<close> map that lists \<open>google/gemini-z\<close> only, and an
  \<open>onError\<close> observer that throws.
\<close>

definition allowlist_fallback_cfg :: "ClawdConfig option" where
  "allowlist_fallback_cfg =
     Some \<lparr>agent_models = [(''google/gemini-z'', None)],
           agent_model_fallbacks =
             [FallbackString ''anthropic/claude-y'', FallbackString ''google/gemini-z'']\<rparr>"

definition onError_throws :: "OnErrorInfo \<Rightarrow> thrown option" where
  "onError_throws info = Some (ErrorInstance ''Error'' ''observer failed'')"

definition run_cancelled :: "string \<Rightarrow> string \<Rightarrow> thrown + string" where
  "run_cancelled provider model =
     (if provider = ''openai'' then Inl (ErrorInstance ''Error'' ''rate limited'')
      else Inl (ErrorInstance ''AbortError'' ''The operation was aborted''))"

text \<open>The attempts the loop records for candidates whose runs failed with the given errors.\<close>

fun mk_attempts :: "ModelCandidate list \<Rightarrow> thrown list \<Rightarrow> FallbackAttempt list" where
  "mk_attempts (c # cs) (e # es) =
     \<lparr>fa_provider = mc_provider c, fa_model = mc_model c, fa_error = error_text e\<rparr>
       # mk_attempts cs es"
| "mk_attempts cs es = []"

section \<open>Cron job input normalization (cron/normalize.ts)\<close>

text \<open>
  The input is \<open>unknown\<close>: any JavaScript value of the kind \<open>JSON.parse\<close> produces, and
  \<open>undefined\<close>. An object is the list of its properties in property order; reading a
  property that is absent gives \<open>undefined\<close>; assigning to a property replaces its value
  in place when it exists and appends it otherwise; the spread \<open>{...obj}\<close> copies the
  list. Numbers are integers: the code only asks for their type and their truthiness.
\<close>

datatype jsval =
    JUndefined
  | JNull
  | JBool bool
  | JNum int
  | JStr string
  | JArr "jsval list"
  | JObj "(string \<times> jsval) list"

definition obj_get :: "(string \<times> jsval) list \<Rightarrow> string \<Rightarrow> jsval" where
  "obj_get props key = (case map_of props key of None \<Rightarrow> JUndefined | Some v \<Rightarrow> v)"

fun obj_set :: "(string \<times> jsval) list \<Rightarrow> string \<Rightarrow> jsval \<Rightarrow> (string \<times> jsval) list" where
  "obj_set [] key v = [(key, v)]"
| "obj_set (p # props) key v = (if fst p = key then (key, v) # props else p # obj_set props key v)"

fun isRecord :: "jsval \<Rightarrow> bool" where
  "isRecord (JObj props) = True"
| "isRecord v = False"

fun js_truthy :: "jsval \<Rightarrow> bool" where
  "js_truthy JUndefined = False"
| "js_truthy JNull = False"
| "js_truthy (JBool b) = b"
| "js_truthy (JNum n) = (n \<noteq> 0)"
| "js_truthy (JStr s) = (s \<noteq> [])"
| "js_truthy (JArr xs) = True"
| "js_truthy (JObj props) = True"

fun is_number :: "jsval \<Rightarrow> bool" where
  "is_number (JNum n) = True"
| "is_number v = False"

fun is_string :: "jsval \<Rightarrow> bool" where
  "is_string (JStr s) = True"
| "is_string v = False"

text \<open>
  \<open>typeof x.kind === "string" ? x.kind : undefined\<close> followed by \<open>!kind\<close>: the kind is
  missing when it is not a string or is the empty string.
\<close>

fun kind_missing :: "jsval \<Rightarrow> bool" where
  "kind_missing (JStr s) = (s = [])"
| "kind_missing v = True"

definition coerceSchedule :: "(string \<times> jsval) list \<Rightarrow> (string \<times> jsval) list" where
  "coerceSchedule schedule =
     (if kind_missing (obj_get schedule ''kind'') then
        (if is_number (obj_get schedule ''atMs'') then obj_set schedule ''kind'' (JStr ''at'')
         else if is_number (obj_get schedule ''everyMs'') then obj_set schedule ''kind'' (JStr ''every'')
         else if is_string (obj_get schedule ''expr'') then obj_set schedule ''kind'' (JStr ''cron'')
         else schedule)
      else schedule)"

definition coercePayload :: "(string \<times> jsval) list \<Rightarrow> (string \<times> jsval) list" where
  "coercePayload payload =
     (if kind_missing (obj_get payload ''kind'') then
        (if is_string (obj_get payload ''text'') then obj_set payload ''kind'' (JStr ''systemEvent'')
         else if is_string (obj_get payload ''message'') then obj_set payload ''kind'' (JStr ''agentTurn'')
         else payload)
      else payload)"

text \<open>The properties of a value known to be a record.\<close>

fun props_of :: "jsval \<Rightarrow> (string \<times> jsval) list" where
  "props_of (JObj props) = props"
| "props_of v = []"

definition unwrapJob :: "(string \<times> jsval) list \<Rightarrow> (string \<times> jsval) list" where
  "unwrapJob raw =
     (if isRecord (obj_get raw ''data'') then props_of (obj_get raw ''data'')
      else if isRecord (obj_get raw ''job'') then props_of (obj_get raw ''job'')
      else raw)"

text \<open>
  \<open>NormalizeOptions\<close> has one optional property, \<open>applyDefaults\<close>: \<open>None\<close> when the
  property is absent, otherwise its truthiness. The \<open>options\<close> argument itself may be
  left out (\<open>None\<close>).
\<close>

type_synonym NormalizeOptions = "bool option"

definition DEFAULT_OPTIONS :: NormalizeOptions where
  "DEFAULT_OPTIONS = Some False"

text \<open>The payload kind read when the defaults are applied: \<open>""\<close> unless a string.\<close>

fun kind_text :: "jsval \<Rightarrow> string" where
  "kind_text (JStr s) = s"
| "kind_text v = []"

definition normalizeCronJobInput :: "jsval \<Rightarrow> NormalizeOptions option \<Rightarrow> jsval" where
  "normalizeCronJobInput raw options0 =
     (if \<not> isRecord raw then JNull
      else
        (let options = (case options0 of None \<Rightarrow> DEFAULT_OPTIONS | Some opts \<Rightarrow> opts);
             base = unwrapJob (props_of raw);
             next1 = (if isRecord (obj_get base ''schedule'')
                      then obj_set base ''schedule''
                             (JObj (coerceSchedule (props_of (obj_get base ''schedule''))))
                      else base);
             next2 = (if isRecord (obj_get base ''payload'')
                      then obj_set next1 ''payload''
                             (JObj (coercePayload (props_of (obj_get base ''payload''))))
                      else next1)
         in if options = Some True then
              (let next3 = (if \<not> js_truthy (obj_get next2 ''wakeMode'')
                            then obj_set next2 ''wakeMode'' (JStr ''next-heartbeat'') else next2)
               in if \<not> js_truthy (obj_get next3 ''sessionTarget'')
                     \<and> isRecord (obj_get next3 ''payload'')
                  then
                    (let kind = kind_text (obj_get (props_of (obj_get next3 ''payload'')) ''kind'');
                         next4 = (if kind = ''systemEvent''
                                  then obj_set next3 ''sessionTarget'' (JStr ''main'')
                                  else next3)
                     in JObj (if kind = ''agentTurn''
                              then obj_set next4 ''sessionTarget'' (JStr ''isolated'')
                              else next4))
                  else JObj next3)
            else JObj next2))"

text \<open>\<open>{applyDefaults: true, ...options}\<close> and \<open>{applyDefaults: false, ...options}\<close>.\<close>

definition normalizeCronJobCreate :: "jsval \<Rightarrow> NormalizeOptions option \<Rightarrow> jsval" where
  "normalizeCronJobCreate raw options =
     normalizeCronJobInput raw
       (Some (case options of None \<Rightarrow> Some True | Some None \<Rightarrow> Some True | Some (Some b) \<Rightarrow> Some b))"

definition normalizeCronJobPatch :: "jsval \<Rightarrow> NormalizeOptions option \<Rightarrow> jsval" where
  "normalizeCronJobPatch raw options =
     normalizeCronJobInput raw
       (Some (case options of None \<Rightarrow> Some False | Some None \<Rightarrow> Some False | Some (Some b) \<Rightarrow> Some b))"

text \<open>A value that \<open>unwrapJob\<close> would replace by its \<open>data\<close> or \<open>job\<close> property.\<close>

definition is_envelope :: "jsval \<Rightarrow> bool" where
  "is_envelope v =
     (isRecord v \<and>
      (isRecord (obj_get (props_of v) ''data'') \<or> isRecord (obj_get (props_of v) ''job'')))"

text \<open>The input \<open>{data: {job: {name: "digest"}}}\<close>, and \<open>{job: {...}}\<close> with a schedule and a payload lacking their kinds.\<close>

definition nested_envelope :: jsval where
  "nested_envelope = JObj [(''data'', JObj [(''job'', JObj [(''name'', JStr ''digest'')])])]"

definition wrapped_job :: jsval where
  "wrapped_job =
     JObj [(''job'',
            JObj [(''name'', JStr ''digest''),
                  (''schedule'', JObj [(''everyMs'', JNum 60000)]),
                  (''payload'', JObj [(''message'', JStr ''summarize'')])])]"

text \<open>
  The four assignments of \<open>normalizeCronJobInput\<close> taken one at a time, and the conditions
  under which the first two leave an object as it is.
\<close>

definition st_schedule :: "(string \<times> jsval) list \<Rightarrow> (string \<times> jsval) list" where
  "st_schedule obj =
     (if isRecord (obj_get obj ''schedule'')
      then obj_set obj ''schedule'' (JObj (coerceSchedule (props_of (obj_get obj ''schedule''))))
      else obj)"

definition st_payload :: "(string \<times> jsval) list \<Rightarrow> (string \<times> jsval) list" where
  "st_payload obj =
     (if isRecord (obj_get obj ''payload'')
      then obj_set obj ''payload'' (JObj (coercePayload (props_of (obj_get obj ''payload''))))
      else obj)"

definition st_wake :: "(string \<times> jsval) list \<Rightarrow> (string \<times> jsval) list" where
  "st_wake obj = (if \<not> js_truthy (obj_get obj ''wakeMode'')
                  then obj_set obj ''wakeMode'' (JStr ''next-heartbeat'') else obj)"

definition st_target :: "(string \<times> jsval) list \<Rightarrow> (string \<times> jsval) list" where
  "st_target obj =
     (if \<not> js_truthy (obj_get obj ''sessionTarget'') \<and> isRecord (obj_get obj ''payload'')
      then
        (if kind_text (obj_get (props_of (obj_get obj ''payload'')) ''kind'') = ''systemEvent''
         then obj_set obj ''sessionTarget'' (JStr ''main'')
         else if kind_text (obj_get (props_of (obj_get obj ''payload'')) ''kind'') = ''agentTurn''
         then obj_set obj ''sessionTarget'' (JStr ''isolated'')
         else obj)
      else obj)"

definition ok_schedule :: "(string \<times> jsval) list \<Rightarrow> bool" where
  "ok_schedule obj =
     (\<not> isRecord (obj_get obj ''schedule'') \<or>
      coerceSchedule (props_of (obj_get obj ''schedule'')) = props_of (obj_get obj ''schedule''))"

definition ok_payload :: "(string \<times> jsval) list \<Rightarrow> bool" where
  "ok_payload obj =
     (\<not> isRecord (obj_get obj ''payload'') \<or>
      coercePayload (props_of (obj_get obj ''payload'')) = props_of (obj_get obj ''payload''))"

section \<open>Heartbeat responses (agents/heartbeat)\<close>

definition HEARTBEAT_TOKEN :: string where
  "HEARTBEAT_TOKEN = ''[HEARTBEAT_OK]''"

record HeartbeatProcessed =
  hb_text :: string
  shouldDeliver :: bool

text \<open>
  The two loops of \<open>processHeartbeatResponse\<close>, each with the \<open>text\<close> and \<open>didStrip\<close>
  variables it updates: \<open>while (text.startsWith(TOKEN))\<close> and
  \<open>while (text.endsWith(TOKEN))\<close>.
\<close>

function strip_leading :: "string \<Rightarrow> bool \<Rightarrow> string \<times> bool" where
  "strip_leading text didStrip =
     (if prefix HEARTBEAT_TOKEN text
      then strip_leading (trimStart (drop (length HEARTBEAT_TOKEN) text)) True
      else (text, didStrip))"
  by pat_completeness auto

termination
proof (relation "measure (\<lambda>(text, didStrip). length text)")
  show "wf (measure (\<lambda>(text, didStrip). length text))" by simp
next
  fix s :: string and didStrip :: bool
  assume "prefix HEARTBEAT_TOKEN s"
  then have "length HEARTBEAT_TOKEN \<le> length s" by (rule prefix_length_le)
  moreover have "0 < length HEARTBEAT_TOKEN" by (simp add: HEARTBEAT_TOKEN_def)
  moreover have "length (trimStart (drop (length HEARTBEAT_TOKEN) s))
                   \<le> length s - length HEARTBEAT_TOKEN"
    unfolding trimStart_def
    using length_dropWhile_le [of is_ws "drop (length HEARTBEAT_TOKEN) s"] by simp
  ultimately have "length (trimStart (drop (length HEARTBEAT_TOKEN) s)) < length s"
    by linarith
  then show "((trimStart (drop (length HEARTBEAT_TOKEN) s), True), (s, didStrip))
               \<in> measure (\<lambda>(text, didStrip). length text)"
    by simp
qed

function strip_trailing :: "string \<Rightarrow> bool \<Rightarrow> string \<times> bool" where
  "strip_trailing text didStrip =
     (if suffix HEARTBEAT_TOKEN text
      then strip_trailing (trimEnd (take (length text - length HEARTBEAT_TOKEN) text)) True
      else (text, didStrip))"
  by pat_completeness auto

termination
proof (relation "measure (\<lambda>(text, didStrip). length text)")
  show "wf (measure (\<lambda>(text, didStrip). length text))" by simp
next
  fix s :: string and didStrip :: bool
  assume "suffix HEARTBEAT_TOKEN s"
  then have "length HEARTBEAT_TOKEN \<le> length s" by (rule suffix_length_le)
  moreover have "0 < length HEARTBEAT_TOKEN" by (simp add: HEARTBEAT_TOKEN_def)
  moreover have "length (trimEnd (take (length s - length HEARTBEAT_TOKEN) s))
                   \<le> length s - length HEARTBEAT_TOKEN"
    unfolding trimEnd_def
    using length_dropWhile_le [of is_ws "rev (take (length s - length HEARTBEAT_TOKEN) s)"]
    by simp
  ultimately have "length (trimEnd (take (length s - length HEARTBEAT_TOKEN) s)) < length s"
    by linarith
  then show "((trimEnd (take (length s - length HEARTBEAT_TOKEN) s), True), (s, didStrip))
               \<in> measure (\<lambda>(text, didStrip). length text)"
    by simp
qed

declare strip_leading.simps [simp del] strip_trailing.simps [simp del]

text \<open>\<open>opts.ackMaxChars\<close> is \<open>None\<close> when it is not given.\<close>

definition processHeartbeatResponse :: "string \<Rightarrow> int option \<Rightarrow> HeartbeatProcessed" where
  "processHeartbeatResponse response ackMaxChars0 =
     (let ackMaxChars = (case ackMaxChars0 of None \<Rightarrow> 30 | Some n \<Rightarrow> n);
          trimmed = trim response
      in if trimmed = [] then \<lparr>hb_text = [], shouldDeliver = False\<rparr>
         else if \<not> str_includes trimmed HEARTBEAT_TOKEN
         then \<lparr>hb_text = trimmed, shouldDeliver = True\<rparr>
         else
           (let leading = strip_leading trimmed False;
                trailing = strip_trailing (fst leading) (snd leading);
                text = fst trailing;
                didStrip = snd trailing
            in if \<not> didStrip then \<lparr>hb_text = trimmed, shouldDeliver = True\<rparr>
               else if text = [] \<or> int (length text) \<le> ackMaxChars
               then \<lparr>hb_text = [], shouldDeliver = False\<rparr>
               else \<lparr>hb_text = text, shouldDeliver = True\<rparr>))"

text \<open>
  For the statement of what the loops remove: a text that is made of whitespace
  characters and tokens only.
\<close>

function tokens_ws :: "string \<Rightarrow> bool" where
  "tokens_ws s =
     (if s = [] then True
      else if is_ws (hd s) then tokens_ws (tl s)
      else if prefix HEARTBEAT_TOKEN s then tokens_ws (drop (length HEARTBEAT_TOKEN) s)
      else False)"
  by pat_completeness auto

termination
proof (relation "measure length")
  show "wf (measure length)" by simp
next
  fix s :: string
  assume "s \<noteq> []"
  then show "(tl s, s) \<in> measure length" by (cases s) simp_all
next
  fix s :: string
  assume "s \<noteq> []"
  moreover have "0 < length HEARTBEAT_TOKEN" by (simp add: HEARTBEAT_TOKEN_def)
  ultimately show "(drop (length HEARTBEAT_TOKEN) s, s) \<in> measure length" by simp
qed

declare tokens_ws.simps [simp del]

text \<open>What is left of a trimmed response once both loops have run.\<close>

definition edge_stripped :: "string \<Rightarrow> string" where
  "edge_stripped trimmed =
     fst (strip_trailing (fst (strip_leading trimmed False)) (snd (strip_leading trimmed False)))"


section \<open>Heartbeat token stripping of the reply pipeline (auto-reply/heartbeat.ts)\<close>

text \<open>
  Modelled from the spec: the constant \<open>HEARTBEAT_TOKEN\<close> that \<open>auto-reply/heartbeat.ts\<close>
  imports from \<open>tokens.js\<close> is not among the sources. The specification strips the
  token \<open>[HEARTBEAT_OK]\<close> (scenario 3), the value the constant of the same name has in
  \<open>agents/heartbeat\<close>; that constant is used here too.
\<close>

datatype StripHeartbeatMode = ModeHeartbeat | ModeMessage

definition DEFAULT_HEARTBEAT_ACK_MAX_CHARS :: int where
  "DEFAULT_HEARTBEAT_ACK_MAX_CHARS = 30"

record StripResult =
  shouldSkip :: bool
  sr_text :: string
  didStrip :: bool

text \<open>
  The \<open>while (changed)\<close> loop of \<open>stripTokenAtEdges\<close> with its variables \<open>text\<close> and
  \<open>didStrip\<close>: a round that finds the token at the start or at the end of the trimmed
  text removes it and goes round again.
\<close>

function edges_loop :: "string \<Rightarrow> bool \<Rightarrow> string \<times> bool" where
  "edges_loop text stripped =
     (let next = trim text
      in if prefix HEARTBEAT_TOKEN next
         then edges_loop (trimStart (drop (length HEARTBEAT_TOKEN) next)) True
         else if suffix HEARTBEAT_TOKEN next
         then edges_loop (trimEnd (take (length next - length HEARTBEAT_TOKEN) next)) True
         else (text, stripped))"
  by pat_completeness auto

termination
proof (relation "measure (\<lambda>(text, stripped). length text)")
  show "wf (measure (\<lambda>(text, stripped). length text))" by simp
next
  fix s :: string and stripped :: bool and x :: string
  assume x: "x = trim s" and p: "prefix HEARTBEAT_TOKEN x"
  from p have "length HEARTBEAT_TOKEN \<le> length x" by (rule prefix_length_le)
  moreover have "0 < length HEARTBEAT_TOKEN" by (simp add: HEARTBEAT_TOKEN_def)
  moreover have "length (trimStart (drop (length HEARTBEAT_TOKEN) x))
                   \<le> length x - length HEARTBEAT_TOKEN"
    unfolding trimStart_def
    using length_dropWhile_le [of is_ws "drop (length HEARTBEAT_TOKEN) x"] by simp
  moreover have "length x \<le> length s"
    unfolding x trim_def trimStart_def trimEnd_def
    using length_dropWhile_le [of is_ws "rev (dropWhile is_ws s)"] length_dropWhile_le [of is_ws s]
    by simp
  ultimately have "length (trimStart (drop (length HEARTBEAT_TOKEN) x)) < length s" by linarith
  then show "((trimStart (drop (length HEARTBEAT_TOKEN) x), True), (s, stripped))
               \<in> measure (\<lambda>(text, stripped). length text)" by simp
next
  fix s :: string and stripped :: bool and x :: string
  assume x: "x = trim s" and p: "suffix HEARTBEAT_TOKEN x"
  from p have "length HEARTBEAT_TOKEN \<le> length x" by (rule suffix_length_le)
  moreover have "0 < length HEARTBEAT_TOKEN" by (simp add: HEARTBEAT_TOKEN_def)
  moreover have "length (trimEnd (take (length x - length HEARTBEAT_TOKEN) x))
                   \<le> length x - length HEARTBEAT_TOKEN"
    unfolding trimEnd_def
    using length_dropWhile_le [of is_ws "rev (take (length x - length HEARTBEAT_TOKEN) x)"]
    by simp
  moreover have "length x \<le> length s"
    unfolding x trim_def trimStart_def trimEnd_def
    using length_dropWhile_le [of is_ws "rev (dropWhile is_ws s)"] length_dropWhile_le [of is_ws s]
    by simp
  ultimately have "length (trimEnd (take (length x - length HEARTBEAT_TOKEN) x)) < length s"
    by linarith
  then show "((trimEnd (take (length x - length HEARTBEAT_TOKEN) x), True), (s, stripped))
               \<in> measure (\<lambda>(text, stripped). length text)" by simp
qed

declare edges_loop.simps [simp del]

text \<open>The result pairs \<open>text\<close> with \<open>didStrip\<close>.\<close>

definition stripTokenAtEdges :: "string \<Rightarrow> string \<times> bool" where
  "stripTokenAtEdges raw =
     (let text = trim raw
      in if text = [] then ([], False)
         else if \<not> str_includes text HEARTBEAT_TOKEN then (text, False)
         else
           (let looped = edges_loop text False
            in (trim (collapse_ws (fst looped)), snd looped)))"

text \<open>\<open>raw\<close> is \<open>None\<close> when the argument is \<open>undefined\<close>; so are the two options.\<close>

definition stripHeartbeatToken ::
  "string option \<Rightarrow> StripHeartbeatMode option \<Rightarrow> int option \<Rightarrow> StripResult" where
  "stripHeartbeatToken raw0 mode0 maxAckChars0 =
     (case raw0 of
        None \<Rightarrow> \<lparr>shouldSkip = True, sr_text = [], didStrip = False\<rparr>
      | Some raw \<Rightarrow>
          if raw = [] then \<lparr>shouldSkip = True, sr_text = [], didStrip = False\<rparr>
          else if trim raw = [] then \<lparr>shouldSkip = True, sr_text = [], didStrip = False\<rparr>
          else
            (let trimmed = trim raw;
                 mode = (case mode0 of None \<Rightarrow> ModeMessage | Some m \<Rightarrow> m);
                 maxAckChars = max 0 (case maxAckChars0 of
                                        None \<Rightarrow> DEFAULT_HEARTBEAT_ACK_MAX_CHARS | Some n \<Rightarrow> n)
             in if \<not> str_includes trimmed HEARTBEAT_TOKEN
                then \<lparr>shouldSkip = False, sr_text = trimmed, didStrip = False\<rparr>
                else
                  (let stripped = stripTokenAtEdges trimmed
                   in if \<not> snd stripped
                      then \<lparr>shouldSkip = False, sr_text = trimmed, didStrip = False\<rparr>
                      else if fst stripped = []
                      then \<lparr>shouldSkip = True, sr_text = [], didStrip = True\<rparr>
                      else if mode = ModeHeartbeat
                              \<and> int (length (trim (fst stripped))) \<le> maxAckChars
                      then \<lparr>shouldSkip = True, sr_text = [], didStrip = True\<rparr>
                      else \<lparr>shouldSkip = False, sr_text = fst stripped, didStrip = True\<rparr>)))"

section \<open>Skill filtering (agents/skills.ts)\<close>

text \<open>\<open>String(value)\<close> on a parsed JSON value, and \<open>s.split(sep)\<close> for a one-character separator.\<close>

definition show_int :: "int \<Rightarrow> string" where
  "show_int n = (if n < 0 then ''-'' @ show_nat (nat (- n)) else show_nat (nat n))"

fun js_String :: "jsval \<Rightarrow> string" where
  "js_String JUndefined = ''undefined''"
| "js_String JNull = ''null''"
| "js_String (JBool b) = (if b then ''true'' else ''false'')"
| "js_String (JNum n) = show_int n"
| "js_String (JStr s) = s"
| "js_String (JArr xs) =
     join '','' (map (\<lambda>x. if x = JUndefined \<or> x = JNull then [] else js_String x) xs)"
| "js_String (JObj props) = ''[object Object]''"

fun split_on :: "char \<Rightarrow> string \<Rightarrow> string list" where
  "split_on sep [] = [[]]"
| "split_on sep (c # cs) =
     (if c = sep then [] # split_on sep cs
      else (case split_on sep cs of
              piece # pieces \<Rightarrow> (c # piece) # pieces
            | [] \<Rightarrow> [[c]]))"

definition normalizeStringList :: "jsval \<Rightarrow> string list" where
  "normalizeStringList input =
     (if \<not> js_truthy input then []
      else (case input of
              JArr xs \<Rightarrow> filter (\<lambda>s. s \<noteq> []) (map (\<lambda>v. trim (js_String v)) xs)
            | JStr s \<Rightarrow> filter (\<lambda>s. s \<noteq> []) (map trim (split_on CHR '','' s))
            | _ \<Rightarrow> []))"

record SkillRequires =
  rq_bins :: "string list option"
  rq_anyBins :: "string list option"
  rq_env :: "string list option"
  rq_config :: "string list option"

record ClawdSkillMetadata =
  md_always :: "bool option"
  md_skillKey :: "string option"
  md_primaryEnv :: "string option"
  md_emoji :: "string option"
  md_homepage :: "string option"
  md_os :: "string list option"
  md_requires :: "SkillRequires option"

text \<open>
  A skill entry: the name of the skill, the parsed frontmatter (a record from keys to
  strings) and the metadata resolved from it.
\<close>

record SkillEntry =
  se_name :: string
  se_frontmatter :: "string \<rightharpoonup> string"
  se_clawd :: "ClawdSkillMetadata option"

record SkillConfig =
  sc_enabled :: "bool option"
  sc_apiKey :: "string option"
  sc_env :: "(string \<rightharpoonup> string) option"

fun bool_field :: "jsval \<Rightarrow> bool option" where
  "bool_field (JBool b) = Some b"
| "bool_field v = None"

fun string_field :: "jsval \<Rightarrow> string option" where
  "string_field (JStr s) = Some s"
| "string_field v = None"

text \<open>
  \<open>resolveClawdMetadata\<close>. \<open>JSON.parse\<close> is a parameter: \<open>None\<close> when it throws. An
  array passes the \<open>typeof ... === "object"\<close> tests and has none of the properties read.
\<close>

fun named_props :: "jsval \<Rightarrow> (string \<times> jsval) list option" where
  "named_props (JObj props) = Some props"
| "named_props (JArr xs) = Some []"
| "named_props v = None"

definition resolveClawdMetadata ::
  "(string \<Rightarrow> jsval option) \<Rightarrow> (string \<rightharpoonup> string) \<Rightarrow> ClawdSkillMetadata option" where
  "resolveClawdMetadata json_parse frontmatter =
     (case frontmatter ''metadata'' of
        None \<Rightarrow> None
      | Some raw \<Rightarrow>
          if raw = [] then None
          else
            (case json_parse raw of
               None \<Rightarrow> None
             | Some parsed \<Rightarrow>
                 (case named_props parsed of
                    None \<Rightarrow> None
                  | Some parsedProps \<Rightarrow>
                      (case named_props (obj_get parsedProps ''clawd'') of
                         None \<Rightarrow> None
                       | Some clawdObj \<Rightarrow>
                           (let osRaw = normalizeStringList (obj_get clawdObj ''os'')
                            in Some \<lparr>md_always = bool_field (obj_get clawdObj ''always''),
                                     md_skillKey = string_field (obj_get clawdObj ''skillKey''),
                                     md_primaryEnv = string_field (obj_get clawdObj ''primaryEnv''),
                                     md_emoji = string_field (obj_get clawdObj ''emoji''),
                                     md_homepage = string_field (obj_get clawdObj ''homepage''),
                                     md_os = (if length osRaw > 0 then Some osRaw else None),
                                     md_requires = None\<rparr>)))))"

definition resolveSkillKey :: "SkillEntry \<Rightarrow> string" where
  "resolveSkillKey entry =
     (case se_clawd entry of
        None \<Rightarrow> se_name entry
      | Some clawd \<Rightarrow> (case md_skillKey clawd of None \<Rightarrow> se_name entry | Some k \<Rightarrow> k))"

text \<open>The configuration as \<open>shouldIncludeSkill\<close> reads it: \<open>config.skills.entries\<close>.\<close>

definition resolveSkillConfig :: "(string \<rightharpoonup> SkillConfig) option \<Rightarrow> string \<Rightarrow> SkillConfig option" where
  "resolveSkillConfig skills skillKey =
     (case skills of None \<Rightarrow> None | Some entries \<Rightarrow> entries skillKey)"

text \<open>
  The process: its environment, its platform, and for \<open>hasBinary\<close> the path delimiter,
  \<open>path.join\<close> and whether \<open>fs.accessSync(candidate, X_OK)\<close> returns.
\<close>

record Process =
  pr_env :: "string \<rightharpoonup> string"
  pr_platform :: string
  pr_delimiter :: char
  pr_join :: "string \<Rightarrow> string \<Rightarrow> string"
  pr_executable :: "string \<Rightarrow> bool"

definition hasBinary :: "Process \<Rightarrow> string \<Rightarrow> bool" where
  "hasBinary process bin =
     (let pathEnv = (case pr_env process ''PATH'' of None \<Rightarrow> [] | Some p \<Rightarrow> p);
          parts = filter (\<lambda>s. s \<noteq> []) (split_on (pr_delimiter process) pathEnv)
      in list_ex (\<lambda>part. pr_executable process (pr_join process part bin)) parts)"

text \<open>One round of the loop over \<open>requiredEnv\<close>: whether the variable lets the loop continue.\<close>

definition env_satisfied :: "Process \<Rightarrow> SkillConfig option \<Rightarrow> ClawdSkillMetadata option \<Rightarrow> string \<Rightarrow> bool" where
  "env_satisfied process skillConfig clawd envName =
     (if (case pr_env process envName of None \<Rightarrow> False | Some v \<Rightarrow> v \<noteq> []) then True
      else if (case skillConfig of
                 None \<Rightarrow> False
               | Some sc \<Rightarrow>
                   (case sc_env sc of
                      None \<Rightarrow> False
                    | Some env \<Rightarrow> (case env envName of None \<Rightarrow> False | Some v \<Rightarrow> v \<noteq> [])))
      then True
      else if (case skillConfig of
                 None \<Rightarrow> False
               | Some sc \<Rightarrow> (case sc_apiKey sc of None \<Rightarrow> False | Some k \<Rightarrow> k \<noteq> []))
              \<and> (case clawd of None \<Rightarrow> None | Some md \<Rightarrow> md_primaryEnv md) = Some envName
      then True
      else False)"

definition shouldIncludeSkill :: "Process \<Rightarrow> SkillEntry \<Rightarrow> (string \<rightharpoonup> SkillConfig) option \<Rightarrow> bool" where
  "shouldIncludeSkill process entry skills =
     (let skillKey = resolveSkillKey entry;
          skillConfig = resolveSkillConfig skills skillKey;
          osList = (case se_clawd entry of
                      None \<Rightarrow> []
                    | Some md \<Rightarrow> (case md_os md of None \<Rightarrow> [] | Some l \<Rightarrow> l));
          requires = (case se_clawd entry of None \<Rightarrow> None | Some md \<Rightarrow> md_requires md)
      in if (case skillConfig of None \<Rightarrow> None | Some sc \<Rightarrow> sc_enabled sc) = Some False then False
         else if length osList > 0 \<and> pr_platform process \<notin> set osList then False
         else if (case se_clawd entry of None \<Rightarrow> None | Some md \<Rightarrow> md_always md) = Some True
         then True
         else
           (let requiredBins = (case requires of
                                  None \<Rightarrow> []
                                | Some r \<Rightarrow> (case rq_bins r of None \<Rightarrow> [] | Some l \<Rightarrow> l))
            in if list_ex (\<lambda>bin. \<not> hasBinary process bin) requiredBins then False
               else
                 (let requiredEnv = (case requires of
                                       None \<Rightarrow> []
                                     | Some r \<Rightarrow> (case rq_env r of None \<Rightarrow> [] | Some l \<Rightarrow> l))
                  in \<not> list_ex (\<lambda>envName. \<not> env_satisfied process skillConfig (se_clawd entry) envName)
                        requiredEnv)))"

definition filterSkillEntries ::
  "Process \<Rightarrow> SkillEntry list \<Rightarrow> (string \<rightharpoonup> SkillConfig) option \<Rightarrow> SkillEntry list" where
  "filterSkillEntries process entries skills =
     filter (\<lambda>entry. shouldIncludeSkill process entry skills) entries"

text \<open>
  A skill whose frontmatter metadata requires the binary \<open>gh\<close>, what \<open>JSON.parse\<close> makes
  of that metadata, and a Linux process whose \<open>PATH\<close> holds one directory with no
  executable in it.
\<close>

definition gh_metadata_text :: string where
  "gh_metadata_text =
     ''{'' @ [CHR 0x22] @ ''clawd'' @ [CHR 0x22] @ '':{'' @ [CHR 0x22] @ ''requires'' @ [CHR 0x22]
       @ '':{'' @ [CHR 0x22] @ ''bins'' @ [CHR 0x22] @ '':['' @ [CHR 0x22] @ ''gh'' @ [CHR 0x22]
       @ '']}}}''"

definition gh_metadata_value :: jsval where
  "gh_metadata_value =
     JObj [(''clawd'', JObj [(''requires'', JObj [(''bins'', JArr [JStr ''gh''])])])]"

definition parse_gh_metadata :: "string \<Rightarrow> jsval option" where
  "parse_gh_metadata s = (if s = gh_metadata_text then Some gh_metadata_value else None)"

definition gh_frontmatter :: "string \<rightharpoonup> string" where
  "gh_frontmatter = [''name'' \<mapsto> ''github'', ''metadata'' \<mapsto> gh_metadata_text]"

definition gh_entry :: SkillEntry where
  "gh_entry =
     \<lparr>se_name = ''github'', se_frontmatter = gh_frontmatter,
      se_clawd = resolveClawdMetadata parse_gh_metadata gh_frontmatter\<rparr>"

definition bare_process :: Process where
  "bare_process =
     \<lparr>pr_env = [''PATH'' \<mapsto> ''/usr/bin''],
      pr_platform = ''linux'',
      pr_delimiter = CHR '':'',
      pr_join = (\<lambda>dir name. dir @ ''/'' @ name),
      pr_executable = (\<lambda>candidate. False)\<rparr>"

section \<open>Inline directives (agents/directives.ts)\<close>

datatype ThinkLevel = ThinkOff | ThinkMinimal | ThinkLow | ThinkMedium | ThinkHigh

datatype VerboseLevel = VerboseOn | VerboseOff

text \<open>\<open>raw\<close> is \<open>None\<close> for \<open>undefined\<close> and \<open>null\<close>; the empty string is falsy as well.\<close>

definition normalizeThinkLevel :: "string option \<Rightarrow> ThinkLevel option" where
  "normalizeThinkLevel raw0 =
     (case raw0 of
        None \<Rightarrow> None
      | Some raw \<Rightarrow>
          if raw = [] then None
          else
            (let key = toLowerCase raw
             in if key \<in> set [''off''] then Some ThinkOff
                else if key \<in> set [''min'', ''minimal''] then Some ThinkMinimal
                else if key \<in> set [''low'', ''thinkhard'', ''think-hard'', ''think_hard'']
                then Some ThinkLow
                else if key \<in> set [''mid'', ''med'', ''medium'', ''thinkharder'', ''think-harder'',
                                     ''harder'']
                then Some ThinkMedium
                else if key \<in> set [''high'', ''ultra'', ''ultrathink'', ''think-hard'',
                                     ''thinkhardest'', ''highest'', ''max'']
                then Some ThinkHigh
                else if key \<in> set [''think''] then Some ThinkMinimal
                else None))"

definition normalizeVerboseLevel :: "string option \<Rightarrow> VerboseLevel option" where
  "normalizeVerboseLevel raw0 =
     (case raw0 of
        None \<Rightarrow> None
      | Some raw \<Rightarrow>
          if raw = [] then None
          else
            (let key = toLowerCase raw
             in if key \<in> set [''off'', ''false'', ''no'', ''0''] then Some VerboseOff
                else if key \<in> set [''on'', ''full'', ''true'', ''yes'', ''1''] then Some VerboseOn
                else None))"

text \<open>
  The two regular expressions,
  \<open>/(?:^|\s)\/(?:thinking|think|t)\s*:?\s*([a-zA-Z-]+)\b/i\<close> and
  \<open>/(?:^|\s)\/(?:verbose|v)(?=$|\s|:)\s*:?\s*([a-zA-Z-]+)\b/i\<close>,
  are matched the way a backtracking matcher does: start positions from left to right, at
  each position the alternatives in the order written, every quantifier greedy.

  The character classes: \<open>[a-zA-Z-]\<close>, and the word characters \<open>[A-Za-z0-9_]\<close> that
  decide \<open>\b\<close>.
\<close>

definition is_alpha :: "char \<Rightarrow> bool" where
  "is_alpha c = (c \<in> set ''abcdefghijklmnopqrstuvwxyzABCDEFGHIJKLMNOPQRSTUVWXYZ'')"

definition is_level_char :: "char \<Rightarrow> bool" where
  "is_level_char c = (is_alpha c \<or> c = CHR ''-'')"

definition is_word_char :: "char \<Rightarrow> bool" where
  "is_word_char c = (is_alpha c \<or> c \<in> set ''0123456789_'')"

text \<open>
  \<open>([a-zA-Z-]+)\b\<close> on a run of level characters followed by \<open>after\<close>: the longest
  non-empty prefix of the run that ends at a word boundary. The end of the input counts
  as a non-word character.
\<close>

definition word_boundary :: "char \<Rightarrow> string \<Rightarrow> bool" where
  "word_boundary before after =
     (is_word_char before \<noteq> (case after of [] \<Rightarrow> False | c # cs \<Rightarrow> is_word_char c))"

function level_group :: "string \<Rightarrow> string \<Rightarrow> string option" where
  "level_group run after =
     (if run = [] then None
      else if word_boundary (last run) after then Some run
      else level_group (butlast run) (last run # after))"
  by pat_completeness auto

termination
  by (relation "measure (\<lambda>(run, after). length run)") auto

declare level_group.simps [simp del]

text \<open>
  \<open>\s*:?\s*([a-zA-Z-]+)\b\<close> on the text after the keyword: the text it consumes and the
  group. Giving back whitespace or the colon never lets the group match where the greedy
  choice failed (the group cannot start at whitespace or at a colon), so only the group
  backtracks.
\<close>

definition directive_tail :: "string \<Rightarrow> (string \<times> string) option" where
  "directive_tail u =
     (let ws1 = takeWhile is_ws u;
          u1 = dropWhile is_ws u;
          colon = (case u1 of c # cs \<Rightarrow> if c = CHR '':'' then [c] else [] | [] \<Rightarrow> []);
          u2 = drop (length colon) u1;
          ws2 = takeWhile is_ws u2;
          u3 = dropWhile is_ws u2
      in case level_group (takeWhile is_level_char u3) (dropWhile is_level_char u3) of
           None \<Rightarrow> None
         | Some g \<Rightarrow> Some (ws1 @ colon @ ws2 @ g, g))"

text \<open>The lookahead \<open>(?=$|\s|:)\<close> of the verbose directive.\<close>

definition lookahead_ok :: "string \<Rightarrow> bool" where
  "lookahead_ok u = (case u of [] \<Rightarrow> True | c # cs \<Rightarrow> is_ws c \<or> c = CHR '':'')"

text \<open>
  The keyword alternatives in order (written in lower case; the \<open>i\<close> flag makes the
  comparison case-insensitive), on the text after the slash: the matched text and the
  group.
\<close>

fun match_keywords :: "string list \<Rightarrow> bool \<Rightarrow> string \<Rightarrow> (string \<times> string) option" where
  "match_keywords [] lookahead s = None"
| "match_keywords (kw # kws) lookahead s =
     (if toLowerCase (take (length kw) s) = kw
         \<and> (\<not> lookahead \<or> lookahead_ok (drop (length kw) s))
      then (case directive_tail (drop (length kw) s) of
              Some found \<Rightarrow> Some (take (length kw) s @ fst found, snd found)
            | None \<Rightarrow> match_keywords kws lookahead s)
      else match_keywords kws lookahead s)"

text \<open>\<open>\/(?:...)...\<close> after the lead \<open>(?:^|\s)\<close> has matched \<open>lead\<close>.\<close>

definition match_slash :: "string list \<Rightarrow> bool \<Rightarrow> string \<Rightarrow> string \<Rightarrow> (string \<times> string) option" where
  "match_slash kws lookahead lead s =
     (case s of
        [] \<Rightarrow> None
      | c # cs \<Rightarrow>
          if c = CHR ''/'' then
            (case match_keywords kws lookahead cs of
               Some found \<Rightarrow> Some (lead @ [c] @ fst found, snd found)
             | None \<Rightarrow> None)
          else None)"

text \<open>A match starting at this position: first \<open>^\<close> (at the start of the input only), then \<open>\s\<close>.\<close>

definition match_here :: "string list \<Rightarrow> bool \<Rightarrow> bool \<Rightarrow> string \<Rightarrow> (string \<times> string) option" where
  "match_here kws lookahead at_start s =
     (case (if at_start then match_slash kws lookahead [] s else None) of
        Some found \<Rightarrow> Some found
      | None \<Rightarrow>
          (case s of
             [] \<Rightarrow> None
           | c # cs \<Rightarrow> if is_ws c then match_slash kws lookahead [c] cs else None))"

text \<open>\<open>body.match(regex)\<close>: \<open>match[0]\<close> and \<open>match[1]\<close> of the leftmost match.\<close>

fun regex_search :: "string list \<Rightarrow> bool \<Rightarrow> bool \<Rightarrow> string \<Rightarrow> (string \<times> string) option" where
  "regex_search kws lookahead at_start [] = match_here kws lookahead at_start []"
| "regex_search kws lookahead at_start (c # cs) =
     (case match_here kws lookahead at_start (c # cs) of
        Some found \<Rightarrow> Some found
      | None \<Rightarrow> regex_search kws lookahead False cs)"

text \<open>\<open>body.replace(pattern, "")\<close> for a string pattern: the first occurrence is removed.\<close>

fun remove_first :: "string \<Rightarrow> string \<Rightarrow> string" where
  "remove_first pattern [] = []"
| "remove_first pattern (c # cs) =
     (if prefix pattern (c # cs) then drop (length pattern) (c # cs)
      else c # remove_first pattern cs)"

record 'a ExtractedDirective =
  ed_cleaned :: string
  ed_level :: "'a option"
  ed_rawLevel :: "string option"
  ed_hasDirective :: bool

definition extractThinkDirective :: "string option \<Rightarrow> ThinkLevel ExtractedDirective" where
  "extractThinkDirective body0 =
     (case body0 of
        None \<Rightarrow> \<lparr>ed_cleaned = [], ed_level = None, ed_rawLevel = None, ed_hasDirective = False\<rparr>
      | Some body \<Rightarrow>
          if body = []
          then \<lparr>ed_cleaned = [], ed_level = None, ed_rawLevel = None, ed_hasDirective = False\<rparr>
          else
            (case regex_search [''thinking'', ''think'', ''t''] False True body of
               None \<Rightarrow>
                 \<lparr>ed_cleaned = trim body, ed_level = normalizeThinkLevel None,
                  ed_rawLevel = None, ed_hasDirective = False\<rparr>
             | Some found \<Rightarrow>
                 \<lparr>ed_cleaned = trim (collapse_ws (remove_first (fst found) body)),
                  ed_level = normalizeThinkLevel (Some (snd found)),
                  ed_rawLevel = Some (snd found), ed_hasDirective = True\<rparr>))"

definition extractVerboseDirective :: "string option \<Rightarrow> VerboseLevel ExtractedDirective" where
  "extractVerboseDirective body0 =
     (case body0 of
        None \<Rightarrow> \<lparr>ed_cleaned = [], ed_level = None, ed_rawLevel = None, ed_hasDirective = False\<rparr>
      | Some body \<Rightarrow>
          if body = []
          then \<lparr>ed_cleaned = [], ed_level = None, ed_rawLevel = None, ed_hasDirective = False\<rparr>
          else
            (case regex_search [''verbose'', ''v''] True True body of
               None \<Rightarrow>
                 \<lparr>ed_cleaned = trim body, ed_level = normalizeVerboseLevel None,
                  ed_rawLevel = None, ed_hasDirective = False\<rparr>
             | Some found \<Rightarrow>
                 \<lparr>ed_cleaned = trim (collapse_ws (remove_first (fst found) body)),
                  ed_level = normalizeVerboseLevel (Some (snd found)),
                  ed_rawLevel = Some (snd found), ed_hasDirective = True\<rparr>))"

record ExtractedDirectives =
  cleanedMessage :: string
  thinkLevel :: "ThinkLevel option"
  verboseLevel :: "VerboseLevel option"
  hasDirectives :: bool

definition extractAllDirectives :: "string \<Rightarrow> ExtractedDirectives" where
  "extractAllDirectives message =
     (let thinkResult = extractThinkDirective (Some message);
          current1 = (if ed_hasDirective thinkResult then ed_cleaned thinkResult else message);
          verboseResult = extractVerboseDirective (Some current1);
          current2 = (if ed_hasDirective verboseResult then ed_cleaned verboseResult else current1)
      in \<lparr>cleanedMessage = trim current2,
          thinkLevel = ed_level thinkResult,
          verboseLevel = ed_level verboseResult,
          hasDirectives = (ed_hasDirective thinkResult \<or> ed_hasDirective verboseResult)\<rparr>)"

section \<open>Theorems\<close>

subsection \<open>Pairing reply\<close>

lemma join_lines8:
  "join [n] [a, b, c, d, e, f, g, h] =
     a @ [n] @ b @ [n] @ c @ [n] @ d @ [n] @ e @ [n] @ f @ [n] @ g @ [n] @ h"
  by simp

text \<open>
  C10, as the code has it: for every provider, idLine and code the reply is the line
  "Clawdbot: access not configured.", a blank line, the idLine, a blank line,
  "Pairing code: " followed by the code, a blank line, "Ask the bot owner to approve with:",
  and "clawdbot pairing approve " followed by the provider and the literal placeholder
  \<open><code>\<close>: the approver command carries the provider, never the pairing code.
\<close>

theorem buildPairingReply_text:
  "buildPairingReply provider idLine code =
     ''Clawdbot: access not configured.'' @ [CHR 0x0A, CHR 0x0A] @
     idLine @ [CHR 0x0A, CHR 0x0A] @
     ''Pairing code: '' @ code @ [CHR 0x0A, CHR 0x0A] @
     ''Ask the bot owner to approve with:'' @ [CHR 0x0A] @
     ''clawdbot pairing approve '' @ provider @ '' <code>''"
  unfolding buildPairingReply_def join_lines8 by simp

text \<open>
  C10 as stated fails: for provider discord and code ABC123 the reply differs from the
  template with the code substituted into the approver command.
\<close>

theorem buildPairingReply_counterexample:
  "buildPairingReply ''discord'' ''Your Discord user id: 1'' ''ABC123''
     \<noteq> pairing_reply_template ''discord'' ''Your Discord user id: 1'' ''ABC123''"
  unfolding buildPairingReply_def pairing_reply_template_def join_lines8 by simp


subsection \<open>Next run of a schedule\<close>












subsection \<open>Store writes\<close>











subsection \<open>Model fallback\<close>

lemmas str_eval = trim_def trimStart_def trimEnd_def is_ws_def toLowerCase_def toLowerChar_def upper_chars_def lower_chars_def

lemma spec_candidates:
  "resolveFallbackCandidates spec_fallback_cfg ''openai'' ''gpt-x'' =
     [\<lparr>mc_provider = ''openai'', mc_model = ''gpt-x''\<rparr>,
      \<lparr>mc_provider = ''anthropic'', mc_model = ''claude-y''\<rparr>,
      \<lparr>mc_provider = ''google'', mc_model = ''gemini-z''\<rparr>]"
  by (simp add: resolveFallbackCandidates_def spec_fallback_cfg_def cfg_or_empty_def
      buildModelAliasIndex_def buildAllowedModelKeys_def addCandidate_def resolveModelRef_def
      parseModelRef_def split_slash_2_def modelKey_def str_eval Let_def)

lemma run_calls_append: "run_calls (xs @ ys) = run_calls xs @ run_calls ys"
  by (induction xs rule: run_calls.induct) simp_all

lemma loop_step_failed:
  assumes "run (mc_provider c) (mc_model c) = Inl e" and "\<not> isAbortError e"
    and "\<forall>h info. onError = Some h \<longrightarrow> h info = None"
  shows "\<exists>calls'. fallback_loop run onError n (c # rest) i attempts lastError calls =
           fallback_loop run onError n rest (i + 1)
             (attempts @ [\<lparr>fa_provider = mc_provider c, fa_model = mc_model c,
                            fa_error = error_text e\<rparr>])
             (Some e) calls'
          \<and> run_calls calls' = run_calls calls @ [(mc_provider c, mc_model c)]"
proof (cases onError)
  case None
  with assms show ?thesis
    by (intro exI [of _ "calls @ [RunCall (mc_provider c) (mc_model c)]"])
       (simp add: run_calls_append)
next
  case (Some h)
  with assms have "h info = None" for info by simp
  with Some assms show ?thesis
    by (intro exI [of _ "calls @ [RunCall (mc_provider c) (mc_model c),
          OnErrorCall \<lparr>oe_provider = mc_provider c, oe_model = mc_model c,
                         oe_error = e, oe_attempt = i + 1, oe_total = n\<rparr>]"])
       (simp add: run_calls_append Let_def)
qed

lemma loop_failing_prefix:
  assumes "map (\<lambda>c. run (mc_provider c) (mc_model c)) pre = map Inl errs"
    and "list_all (\<lambda>e. \<not> isAbortError e) errs"
    and "\<forall>h info. onError = Some h \<longrightarrow> h info = None"
  shows "\<exists>calls'. fallback_loop run onError n (pre @ rest) i attempts lastError calls =
           fallback_loop run onError n rest (i + length pre)
             (attempts @ mk_attempts pre errs)
             (if errs = [] then lastError else Some (last errs)) calls'
          \<and> run_calls calls' = run_calls calls @ map (\<lambda>c. (mc_provider c, mc_model c)) pre"
  using assms
proof (induction pre arbitrary: errs i attempts lastError calls)
  case Nil
  then show ?case by auto
next
  case (Cons c pre)
  then obtain e es where errs: "errs = e # es" by (cases errs) auto
  with Cons.prems have c: "run (mc_provider c) (mc_model c) = Inl e" and na: "\<not> isAbortError e"
    and rest: "map (\<lambda>c. run (mc_provider c) (mc_model c)) pre = map Inl es"
      "list_all (\<lambda>e. \<not> isAbortError e) es"
    by auto
  let ?a = "\<lparr>fa_provider = mc_provider c, fa_model = mc_model c, fa_error = error_text e\<rparr>"
  from loop_step_failed [where run = run and c = c and e = e and onError = onError and n = n
      and rest = "pre @ rest" and i = i and attempts = attempts and lastError = lastError
      and calls = calls, OF c na Cons.prems(3)]
  obtain calls1 where
    s1: "fallback_loop run onError n (c # pre @ rest) i attempts lastError calls =
           fallback_loop run onError n (pre @ rest) (i + 1) (attempts @ [?a]) (Some e) calls1"
    and r1: "run_calls calls1 = run_calls calls @ [(mc_provider c, mc_model c)]" by blast
  from Cons.IH [OF rest Cons.prems(3), of "i + 1" "attempts @ [?a]" "Some e" calls1]
  obtain calls2 where
    s2: "fallback_loop run onError n (pre @ rest) (i + 1) (attempts @ [?a]) (Some e) calls1 =
           fallback_loop run onError n rest (i + 1 + length pre)
             ((attempts @ [?a]) @ mk_attempts pre es)
             (if es = [] then Some e else Some (last es)) calls2"
    and r2: "run_calls calls2 = run_calls calls1 @ map (\<lambda>c. (mc_provider c, mc_model c)) pre"
    by blast
  have "fallback_loop run onError n ((c # pre) @ rest) i attempts lastError calls =
           fallback_loop run onError n rest (i + length (c # pre))
             (attempts @ mk_attempts (c # pre) errs)
             (if errs = [] then lastError else Some (last errs)) calls2"
    using s1 s2 errs by (simp add: add.commute add.left_commute)
  moreover have "run_calls calls2 = run_calls calls @ map (\<lambda>c. (mc_provider c, mc_model c)) (c # pre)"
    using r1 r2 by simp
  ultimately show ?case by blast
qed

lemma foldl_keeps_head:
  assumes "\<And>st raw. \<exists>more. snd (step st raw) = snd st @ more"
  shows "\<exists>more. snd (foldl step st raws) = snd st @ more"
proof (induction raws arbitrary: st)
  case Nil
  then show ?case by simp
next
  case (Cons raw raws)
  from assms [of st raw] obtain m1 where m1: "snd (step st raw) = snd st @ m1" by blast
  from Cons.IH [of "step st raw"] obtain m2
    where "snd (foldl step (step st raw) raws) = snd (step st raw) @ m2" by blast
  with m1 show ?case by simp
qed

lemma addCandidate_extends: "\<exists>more. snd (addCandidate allowlist candidate enforce st) = snd st @ more"
  by (simp add: addCandidate_def Let_def)

lemma trim_default_nonempty:
  "(if trim s = [] then DEFAULT_PROVIDER else trim s) \<noteq> []"
  "(if trim s = [] then DEFAULT_MODEL else trim s) \<noteq> []"
  by (simp_all add: DEFAULT_PROVIDER_def DEFAULT_MODEL_def)

lemma primary_first:
  "\<exists>rest. resolveFallbackCandidates cfg provider model =
     \<lparr>mc_provider = (if trim provider = [] then DEFAULT_PROVIDER else trim provider),
      mc_model = (if trim model = [] then DEFAULT_MODEL else trim model)\<rparr> # rest"
proof -
  let ?p = "\<lparr>mc_provider = (if trim provider = [] then DEFAULT_PROVIDER else trim provider),
      mc_model = (if trim model = [] then DEFAULT_MODEL else trim model)\<rparr>"
  let ?al = "buildAllowedModelKeys cfg DEFAULT_PROVIDER"
  have p: "snd (addCandidate ?al ?p False ([], [])) = [?p]"
    using trim_default_nonempty [of provider] trim_default_nonempty [of model]
    by (simp add: addCandidate_def Let_def)
  have "\<exists>more. snd (foldl (\<lambda>st raw.
                       case resolveModelRef (fallback_text raw) DEFAULT_PROVIDER
                              (buildModelAliasIndex (cfg_or_empty cfg) DEFAULT_PROVIDER) of
                         None \<Rightarrow> st
                       | Some resolved \<Rightarrow> addCandidate ?al (fst resolved) True st)
                    (addCandidate ?al ?p False ([], [])) (agent_model_fallbacks (cfg_or_empty cfg)))
          = snd (addCandidate ?al ?p False ([], [])) @ more"
    by (rule foldl_keeps_head) (simp add: addCandidate_extends split: option.splits)
  then show ?thesis
    unfolding resolveFallbackCandidates_def Let_def p by simp
qed

lemma foldl_step_extends:
  "\<exists>more. snd (foldl (\<lambda>st raw.
                      case resolveModelRef (fallback_text raw) dp aliasIndex of
                        None \<Rightarrow> st
                      | Some resolved \<Rightarrow> addCandidate al (fst resolved) True st) st raws)
     = snd st @ more"
  by (rule foldl_keeps_head) (simp add: addCandidate_extends split: option.splits)

lemma first_fallback_candidates:
  assumes fb: "agent_model_fallbacks (cfg_or_empty cfg) = raw # others"
    and res: "resolveModelRef (fallback_text raw) DEFAULT_PROVIDER
                (buildModelAliasIndex (cfg_or_empty cfg) DEFAULT_PROVIDER) = Some (f, fromAlias)"
    and ne: "mc_provider f \<noteq> []" "mc_model f \<noteq> []"
    and p: "p = (if trim provider = [] then DEFAULT_PROVIDER else trim provider)"
    and m: "m = (if trim model = [] then DEFAULT_MODEL else trim model)"
    and other: "modelKey (mc_provider f) (mc_model f) \<noteq> modelKey p m"
    and allowed: "\<forall>keys. buildAllowedModelKeys cfg DEFAULT_PROVIDER = Some keys \<longrightarrow>
                    modelKey (mc_provider f) (mc_model f) \<in> set keys"
  shows "\<exists>rest. resolveFallbackCandidates cfg provider model =
           \<lparr>mc_provider = p, mc_model = m\<rparr> # f # rest"
proof -
  let ?al = "buildAllowedModelKeys cfg DEFAULT_PROVIDER"
  let ?ai = "buildModelAliasIndex (cfg_or_empty cfg) DEFAULT_PROVIDER"
  let ?step = "\<lambda>st raw. case resolveModelRef (fallback_text raw) DEFAULT_PROVIDER ?ai of
                         None \<Rightarrow> st
                       | Some resolved \<Rightarrow> addCandidate ?al (fst resolved) True st"
  let ?P = "\<lparr>mc_provider = p, mc_model = m\<rparr>"
  have pne: "p \<noteq> []" "m \<noteq> []"
    using trim_default_nonempty [of provider] trim_default_nonempty [of model] p m by simp_all
  have s0: "addCandidate ?al ?P False ([], []) = ([modelKey p m], [?P])"
    using pne by (simp add: addCandidate_def Let_def)
  have s1: "?step ([modelKey p m], [?P]) raw =
              ([modelKey p m, modelKey (mc_provider f) (mc_model f)], [?P, f])"
    using res ne other allowed
    by (cases ?al) (simp_all add: addCandidate_def Let_def)
  from foldl_step_extends [where dp = DEFAULT_PROVIDER and aliasIndex = ?ai and al = ?al
      and st = "([modelKey p m, modelKey (mc_provider f) (mc_model f)], [?P, f])"
      and raws = others]
  obtain rest where
    "snd (foldl ?step ([modelKey p m, modelKey (mc_provider f) (mc_model f)], [?P, f]) others)
       = [?P, f] @ rest" by auto
  then have "resolveFallbackCandidates cfg provider model = ?P # f # rest"
    unfolding resolveFallbackCandidates_def Let_def p [symmetric] m [symmetric] s0 fb
    by (simp only: foldl_Cons s1) simp
  then show ?thesis by blast
qed

text \<open>
  C1, as the code has it. Let \<open>p\<close>, \<open>m\<close> be the primary provider and model (trimmed,
  or the defaults when blank), and let the first entry of \<open>agent.model.fallbacks\<close>
  resolve (through the alias index or \<open>parseModelRef\<close>) to a candidate \<open>f\<close> that the
  chain accepts: its provider and model are not empty, its key differs from the
  primary's, and it is in the allow-list when \<open>agent.models\<close> gives one. Then, whenever
  the run of \<open>p\<close>, \<open>m\<close> fails with an error that is not a cancellation, the run of \<open>f\<close>
  succeeds and the \<open>onError\<close> observer, if any, does not throw, the function returns the
  result of \<open>f\<close> with the provider and model of \<open>f\<close>, \<open>attempts\<close> holds exactly one entry
  (the provider, model and error message of the primary), and \<open>run\<close> was called for the
  primary and then for \<open>f\<close>, and for nothing else. The instance proved after it is the
  scenario of the specification: primary \<open>openai/gpt-x\<close>, fallbacks \<open>anthropic/claude-y\<close>
  and \<open>google/gemini-z\<close>, no \<open>agent.models\<close>.
\<close>

theorem runWithModelFallback_first_fallback:
  assumes fb: "agent_model_fallbacks (cfg_or_empty cfg) = raw # others"
    and res: "resolveModelRef (fallback_text raw) DEFAULT_PROVIDER
                (buildModelAliasIndex (cfg_or_empty cfg) DEFAULT_PROVIDER) = Some (f, fromAlias)"
    and ne: "mc_provider f \<noteq> []" "mc_model f \<noteq> []"
    and p: "p = (if trim provider = [] then DEFAULT_PROVIDER else trim provider)"
    and m: "m = (if trim model = [] then DEFAULT_MODEL else trim model)"
    and other: "modelKey (mc_provider f) (mc_model f) \<noteq> modelKey p m"
    and allowed: "\<forall>keys. buildAllowedModelKeys cfg DEFAULT_PROVIDER = Some keys \<longrightarrow>
                    modelKey (mc_provider f) (mc_model f) \<in> set keys"
    and primary: "run p m = Inl err"
    and na: "\<not> isAbortError err"
    and fallback: "run (mc_provider f) (mc_model f) = Inr result"
    and quiet: "\<forall>h info. onError = Some h \<longrightarrow> h info = None"
  shows "fst (runWithModelFallback cfg provider model run onError) =
           Returned result (mc_provider f) (mc_model f)
             [\<lparr>fa_provider = p, fa_model = m, fa_error = error_text err\<rparr>]
       \<and> run_calls (snd (runWithModelFallback cfg provider model run onError)) =
           [(p, m), (mc_provider f, mc_model f)]"
proof -
  let ?P = "\<lparr>mc_provider = p, mc_model = m\<rparr>"
  from first_fallback_candidates [OF fb res ne p m other allowed]
  obtain rest where cands: "resolveFallbackCandidates cfg provider model = ?P # f # rest"
    by blast
  have primary': "run (mc_provider ?P) (mc_model ?P) = Inl err" using primary by simp
  from loop_step_failed [where run = run and c = ?P and e = err and onError = onError
      and n = "length (?P # f # rest)" and rest = "f # rest" and i = 0 and attempts = "[]"
      and lastError = None and calls = "[]", OF primary' na quiet]
  obtain calls1 where
    s: "fallback_loop run onError (length (?P # f # rest)) (?P # f # rest) 0 [] None [] =
       fallback_loop run onError (length (?P # f # rest)) (f # rest) (0 + 1)
         ([] @ [\<lparr>fa_provider = mc_provider ?P, fa_model = mc_model ?P,
                  fa_error = error_text err\<rparr>])
         (Some err) calls1"
    and r: "run_calls calls1 = run_calls [] @ [(mc_provider ?P, mc_model ?P)]" by blast
  show ?thesis
    unfolding runWithModelFallback_def cands Let_def s
    using fallback r by (simp add: run_calls_append)
qed

theorem runWithModelFallback_first_fallback_witness:
  "fst (runWithModelFallback spec_fallback_cfg ''openai'' ''gpt-x'' run_openai_down None) =
     Returned ''reply from claude-y'' ''anthropic'' ''claude-y''
       [\<lparr>fa_provider = ''openai'', fa_model = ''gpt-x'', fa_error = ''rate limited''\<rparr>]
   \<and> run_calls (snd (runWithModelFallback spec_fallback_cfg ''openai'' ''gpt-x''
                       run_openai_down None)) =
       [(''openai'', ''gpt-x''), (''anthropic'', ''claude-y'')]"
proof -
  let ?f = "\<lparr>mc_provider = ''anthropic'', mc_model = ''claude-y''\<rparr>"
  have fb: "agent_model_fallbacks (cfg_or_empty spec_fallback_cfg) =
              FallbackString ''anthropic/claude-y'' # [FallbackString ''google/gemini-z'']"
    by (simp add: spec_fallback_cfg_def cfg_or_empty_def)
  have res: "resolveModelRef (fallback_text (FallbackString ''anthropic/claude-y''))
               DEFAULT_PROVIDER
               (buildModelAliasIndex (cfg_or_empty spec_fallback_cfg) DEFAULT_PROVIDER)
             = Some (?f, False)"
    by (simp add: spec_fallback_cfg_def cfg_or_empty_def buildModelAliasIndex_def
        resolveModelRef_def parseModelRef_def split_slash_2_def str_eval Let_def)
  have ne: "mc_provider ?f \<noteq> []" "mc_model ?f \<noteq> []" by simp_all
  have p: "''openai'' = (if trim ''openai'' = [] then DEFAULT_PROVIDER else trim ''openai'')"
    by (simp add: str_eval)
  have m: "''gpt-x'' = (if trim ''gpt-x'' = [] then DEFAULT_MODEL else trim ''gpt-x'')"
    by (simp add: str_eval)
  have other: "modelKey (mc_provider ?f) (mc_model ?f) \<noteq> modelKey ''openai'' ''gpt-x''"
    by (simp add: modelKey_def)
  have allowed: "\<forall>keys. buildAllowedModelKeys spec_fallback_cfg DEFAULT_PROVIDER = Some keys
                   \<longrightarrow> modelKey (mc_provider ?f) (mc_model ?f) \<in> set keys"
    by (simp add: buildAllowedModelKeys_def spec_fallback_cfg_def cfg_or_empty_def)
  have na: "\<not> isAbortError (ErrorInstance ''Error'' ''rate limited'')"
    by (simp add: str_eval)
  have q: "\<forall>h info. (None :: (OnErrorInfo \<Rightarrow> thrown option) option) = Some h \<longrightarrow> h info = None"
    by simp
  have r1: "run_openai_down ''openai'' ''gpt-x'' = Inl (ErrorInstance ''Error'' ''rate limited'')"
    by (simp add: run_openai_down_def)
  have r2: "run_openai_down (mc_provider ?f) (mc_model ?f) = Inr ''reply from claude-y''"
    by (simp add: run_openai_down_def)
  from runWithModelFallback_first_fallback [OF fb res ne p m other allowed r1 na r2 q]
  show ?thesis by simp
qed

lemma allowlist_candidates:
  "resolveFallbackCandidates allowlist_fallback_cfg ''openai'' ''gpt-x'' =
     [\<lparr>mc_provider = ''openai'', mc_model = ''gpt-x''\<rparr>,
      \<lparr>mc_provider = ''google'', mc_model = ''gemini-z''\<rparr>]"
  by (simp add: resolveFallbackCandidates_def allowlist_fallback_cfg_def cfg_or_empty_def
      buildModelAliasIndex_def buildAllowedModelKeys_def addCandidate_def resolveModelRef_def
      parseModelRef_def split_slash_2_def modelKey_def str_eval Let_def List.map_filter_def)

text \<open>
  C1 as stated fails, for two reasons. With an \<open>agent.models\<close> map that lists
  \<open>google/gemini-z\<close> only, the first fallback \<open>anthropic/claude-y\<close> is not in the allow-list
  and never becomes a candidate: although its run would succeed, the function returns
  the result of \<open>google/gemini-z\<close>. And with an \<open>onError\<close> observer that throws, the
  observer's error ends the function after the primary's failure, before the first
  fallback is run.
\<close>

theorem runWithModelFallback_first_fallback_counterexample:
  "run_openai_down ''openai'' ''gpt-x'' = Inl (ErrorInstance ''Error'' ''rate limited'')
   \<and> \<not> isAbortError (ErrorInstance ''Error'' ''rate limited'')
   \<and> run_openai_down ''anthropic'' ''claude-y'' = Inr ''reply from claude-y''
   \<and> runWithModelFallback allowlist_fallback_cfg ''openai'' ''gpt-x'' run_openai_down None =
       (Returned ''reply from gemini-z'' ''google'' ''gemini-z''
          [\<lparr>fa_provider = ''openai'', fa_model = ''gpt-x'', fa_error = ''rate limited''\<rparr>],
        [RunCall ''openai'' ''gpt-x'', RunCall ''google'' ''gemini-z''])
   \<and> runWithModelFallback spec_fallback_cfg ''openai'' ''gpt-x'' run_openai_down
         (Some onError_throws) =
       (Rethrown (ErrorInstance ''Error'' ''observer failed''),
        [RunCall ''openai'' ''gpt-x'',
         OnErrorCall \<lparr>oe_provider = ''openai'', oe_model = ''gpt-x'',
                      oe_error = ErrorInstance ''Error'' ''rate limited'',
                      oe_attempt = 1, oe_total = 3\<rparr>])"
  by (simp add: runWithModelFallback_def allowlist_candidates spec_candidates
      run_openai_down_def onError_throws_def str_eval)

lemma mk_attempts_summary:
  "length cs = length errs \<Longrightarrow>
   map attempt_summary (mk_attempts cs errs) =
     map2 (\<lambda>c e. mc_provider c @ ''/'' @ mc_model c @ '': '' @ error_text e) cs errs"
  by (induction cs errs rule: list_induct2) (simp_all add: attempt_summary_def)

lemma mk_attempts_length: "length cs = length errs \<Longrightarrow> length (mk_attempts cs errs) = length cs"
  by (induction cs errs rule: list_induct2) simp_all

lemma all_failed_outcome:
  assumes cands: "resolveFallbackCandidates cfg provider model = cs"
    and runs: "map (\<lambda>c. run (mc_provider c) (mc_model c)) cs = map Inl errs"
    and na: "list_all (\<lambda>e. \<not> isAbortError e) errs"
    and quiet: "\<forall>h info. onError = Some h \<longrightarrow> h info = None"
  shows "fst (runWithModelFallback cfg provider model run onError) =
           (if length cs = 1 \<and> thrown_truthy (last errs) then Rethrown (last errs)
            else AllModelsFailed
                   (''All models failed ('' @ show_nat (length cs) @ ''): '' @
                    join '' | ''
                      (map2 (\<lambda>c e. mc_provider c @ ''/'' @ mc_model c @ '': '' @ error_text e)
                         cs errs))
                   (case last errs of
                      ErrorInstance name message \<Rightarrow> Some (ErrorInstance name message)
                    | _ \<Rightarrow> None))"
proof -
  from primary_first [of cfg provider model] cands have ne: "cs \<noteq> []" by auto
  from runs have len: "length cs = length errs" by (metis length_map)
  with ne have ene: "errs \<noteq> []" by auto
  from loop_failing_prefix [where run = run and pre = cs and errs = errs and onError = onError
      and n = "length cs" and rest = "[]" and i = 0 and attempts = "[]" and lastError = None
      and calls = "[]", OF runs na quiet]
  obtain calls' where
    "fallback_loop run onError (length cs) cs 0 [] None [] =
       fallback_loop run onError (length cs) [] (0 + length cs) ([] @ mk_attempts cs errs)
         (if errs = [] then None else Some (last errs)) calls'" by auto
  with ene have r: "fst (runWithModelFallback cfg provider model run onError) =
      after_loop (length cs) (mk_attempts cs errs) (Some (last errs))"
    by (simp add: runWithModelFallback_def cands)
  have l: "length (mk_attempts cs errs) = length cs" by (rule mk_attempts_length [OF len])
  have l1: "length cs \<le> 1 \<longleftrightarrow> length cs = 1" using ne by (cases cs) auto
  show ?thesis
    unfolding r after_loop_def aggregated_error_def Let_def l mk_attempts_summary [OF len]
    using ne l1 by simp
qed

lemma abort_outcome:
  assumes cands: "resolveFallbackCandidates cfg provider model = pre @ c # post"
    and runs: "map (\<lambda>c. run (mc_provider c) (mc_model c)) pre = map Inl errs"
    and na: "list_all (\<lambda>e. \<not> isAbortError e) errs"
    and ab: "run (mc_provider c) (mc_model c) = Inl e" "isAbortError e"
    and quiet: "\<forall>h info. onError = Some h \<longrightarrow> h info = None"
  shows "fst (runWithModelFallback cfg provider model run onError) = Rethrown e
       \<and> run_calls (snd (runWithModelFallback cfg provider model run onError)) =
             map (\<lambda>c. (mc_provider c, mc_model c)) (pre @ [c])"
proof -
  from loop_failing_prefix [where run = run and pre = pre and errs = errs and onError = onError
      and n = "length (pre @ c # post)" and rest = "c # post" and i = 0 and attempts = "[]"
      and lastError = None and calls = "[]", OF runs na quiet]
  obtain calls' where
    s: "fallback_loop run onError (length (pre @ c # post)) (pre @ c # post) 0 [] None [] =
       fallback_loop run onError (length (pre @ c # post)) (c # post) (0 + length pre)
         ([] @ mk_attempts pre errs) (if errs = [] then None else Some (last errs)) calls'"
    and r: "run_calls calls' = run_calls [] @ map (\<lambda>c. (mc_provider c, mc_model c)) pre"
    by blast
  show ?thesis
    unfolding runWithModelFallback_def cands Let_def s
    using ab r by (simp add: run_calls_append)
qed

text \<open>
  C2, as the code has it (the \<open>onError\<close> observer, if any, not throwing). When every
  candidate's run fails with an error that is not a cancellation: a chain of two or more
  candidates ends in the aggregated error, whose message is "All models failed (n): "
  followed by "provider/model: error" for every candidate, joined by " | "; a chain of
  the primary alone throws the original error again when that value is truthy, and the
  aggregated error only when it is falsy. When the candidates before some candidate fail
  with errors that are not cancellations and that candidate's run fails with a
  cancellation, the cancellation itself is thrown and no later candidate is run.
\<close>

theorem runWithModelFallback_failures:
  assumes quiet: "\<forall>h info. onError = Some h \<longrightarrow> h info = None"
  shows "(resolveFallbackCandidates cfg provider model = cs \<and>
          map (\<lambda>c. run (mc_provider c) (mc_model c)) cs = map Inl errs \<and>
          list_all (\<lambda>e. \<not> isAbortError e) errs
          \<longrightarrow> fst (runWithModelFallback cfg provider model run onError) =
               (if length cs = 1 \<and> thrown_truthy (last errs) then Rethrown (last errs)
                else AllModelsFailed
                       (''All models failed ('' @ show_nat (length cs) @ ''): '' @
                        join '' | ''
                          (map2 (\<lambda>c e. mc_provider c @ ''/'' @ mc_model c @ '': '' @ error_text e)
                             cs errs))
                       (case last errs of
                          ErrorInstance name message \<Rightarrow> Some (ErrorInstance name message)
                        | _ \<Rightarrow> None)))
       \<and> (resolveFallbackCandidates cfg provider model = pre @ c # post \<and>
          map (\<lambda>c. run (mc_provider c) (mc_model c)) pre = map Inl errs' \<and>
          list_all (\<lambda>e. \<not> isAbortError e) errs' \<and>
          run (mc_provider c) (mc_model c) = Inl e \<and> isAbortError e
          \<longrightarrow> fst (runWithModelFallback cfg provider model run onError) = Rethrown e \<and>
              run_calls (snd (runWithModelFallback cfg provider model run onError)) =
                map (\<lambda>c. (mc_provider c, mc_model c)) (pre @ [c]))"
proof (intro conjI impI)
  assume "resolveFallbackCandidates cfg provider model = cs \<and>
          map (\<lambda>c. run (mc_provider c) (mc_model c)) cs = map Inl errs \<and>
          list_all (\<lambda>e. \<not> isAbortError e) errs"
  then show "fst (runWithModelFallback cfg provider model run onError) =
               (if length cs = 1 \<and> thrown_truthy (last errs) then Rethrown (last errs)
                else AllModelsFailed
                       (''All models failed ('' @ show_nat (length cs) @ ''): '' @
                        join '' | ''
                          (map2 (\<lambda>c e. mc_provider c @ ''/'' @ mc_model c @ '': '' @ error_text e)
                             cs errs))
                       (case last errs of
                          ErrorInstance name message \<Rightarrow> Some (ErrorInstance name message)
                        | _ \<Rightarrow> None))"
    using all_failed_outcome [where cfg = cfg and provider = provider and model = model
        and cs = cs and run = run and errs = errs and onError = onError] quiet
    by (elim conjE) simp
next
  assume h: "resolveFallbackCandidates cfg provider model = pre @ c # post \<and>
          map (\<lambda>c. run (mc_provider c) (mc_model c)) pre = map Inl errs' \<and>
          list_all (\<lambda>e. \<not> isAbortError e) errs' \<and>
          run (mc_provider c) (mc_model c) = Inl e \<and> isAbortError e"
  from h abort_outcome [where cfg = cfg and provider = provider and model = model
        and pre = pre and c = c and post = post and run = run and errs = errs' and e = e
        and onError = onError] quiet
  show "fst (runWithModelFallback cfg provider model run onError) = Rethrown e"
    by (elim conjE) simp
  from h abort_outcome [where cfg = cfg and provider = provider and model = model
        and pre = pre and c = c and post = post and run = run and errs = errs' and e = e
        and onError = onError] quiet
  show "run_calls (snd (runWithModelFallback cfg provider model run onError)) =
                map (\<lambda>c. (mc_provider c, mc_model c)) (pre @ [c])"
    by (elim conjE) simp
qed

lemma show_nat_3: "show_nat (Suc (Suc (Suc 0))) = ''3''"
  by (simp add: show_nat.simps)

theorem runWithModelFallback_failures_witness:
  "fst (runWithModelFallback spec_fallback_cfg ''openai'' ''gpt-x'' run_all_down None) =
     AllModelsFailed
       (''All models failed (3): openai/gpt-x: no route to openai | '' @
        ''anthropic/claude-y: no route to anthropic | google/gemini-z: no route to google'')
       (Some (ErrorInstance ''Error'' ''no route to google''))
   \<and> fst (runWithModelFallback spec_fallback_cfg ''openai'' ''gpt-x'' run_cancelled None) =
       Rethrown (ErrorInstance ''AbortError'' ''The operation was aborted'')
   \<and> run_calls (snd (runWithModelFallback spec_fallback_cfg ''openai'' ''gpt-x'' run_cancelled None)) =
       [(''openai'', ''gpt-x''), (''anthropic'', ''claude-y'')]"
proof -
  have q: "\<forall>h info. (None :: (OnErrorInfo \<Rightarrow> thrown option) option) = Some h \<longrightarrow> h info = None"
    by simp
  have na: "\<not> isAbortError (ErrorInstance ''Error'' ''rate limited'')"
    "\<not> isAbortError (ErrorInstance ''Error'' ''no route to openai'')"
    "\<not> isAbortError (ErrorInstance ''Error'' ''no route to anthropic'')"
    "\<not> isAbortError (ErrorInstance ''Error'' ''no route to google'')"
    by (simp_all add: str_eval)
  have ab: "isAbortError (ErrorInstance ''AbortError'' ''The operation was aborted'')"
    by simp
  from runWithModelFallback_failures [where onError = None and cfg = spec_fallback_cfg
      and provider = "''openai''" and model = "''gpt-x''" and run = run_all_down
      and cs = "[\<lparr>mc_provider = ''openai'', mc_model = ''gpt-x''\<rparr>,
                 \<lparr>mc_provider = ''anthropic'', mc_model = ''claude-y''\<rparr>,
                 \<lparr>mc_provider = ''google'', mc_model = ''gemini-z''\<rparr>]"
      and errs = "[ErrorInstance ''Error'' ''no route to openai'',
                   ErrorInstance ''Error'' ''no route to anthropic'',
                   ErrorInstance ''Error'' ''no route to google'']", OF q, THEN conjunct1]
  have a: "fst (runWithModelFallback spec_fallback_cfg ''openai'' ''gpt-x'' run_all_down None) =
     AllModelsFailed
       (''All models failed (3): openai/gpt-x: no route to openai | '' @
        ''anthropic/claude-y: no route to anthropic | google/gemini-z: no route to google'')
       (Some (ErrorInstance ''Error'' ''no route to google''))"
    using na by (simp add: spec_candidates run_all_down_def show_nat_3)
  from runWithModelFallback_failures [where onError = None and cfg = spec_fallback_cfg
      and provider = "''openai''" and model = "''gpt-x''" and run = run_cancelled
      and pre = "[\<lparr>mc_provider = ''openai'', mc_model = ''gpt-x''\<rparr>]"
      and c = "\<lparr>mc_provider = ''anthropic'', mc_model = ''claude-y''\<rparr>"
      and post = "[\<lparr>mc_provider = ''google'', mc_model = ''gemini-z''\<rparr>]"
      and errs' = "[ErrorInstance ''Error'' ''rate limited'']"
      and e = "ErrorInstance ''AbortError'' ''The operation was aborted''", OF q, THEN conjunct2]
  have b: "fst (runWithModelFallback spec_fallback_cfg ''openai'' ''gpt-x'' run_cancelled None) =
       Rethrown (ErrorInstance ''AbortError'' ''The operation was aborted'')
     \<and> run_calls (snd (runWithModelFallback spec_fallback_cfg ''openai'' ''gpt-x'' run_cancelled None)) =
       [(''openai'', ''gpt-x''), (''anthropic'', ''claude-y'')]"
    using na ab by (simp add: spec_candidates run_cancelled_def)
  from a b show ?thesis by simp
qed

lemma primary_only_candidates:
  "resolveFallbackCandidates None ''openai'' ''gpt-x'' =
     [\<lparr>mc_provider = ''openai'', mc_model = ''gpt-x''\<rparr>]"
  by (simp add: resolveFallbackCandidates_def cfg_or_empty_def
      buildModelAliasIndex_def buildAllowedModelKeys_def addCandidate_def
      modelKey_def str_eval Let_def)

text \<open>
  C2 as stated fails for a chain of the primary alone: with no fallbacks configured and
  the primary failing with an ordinary error, that error is thrown as it is, not an
  aggregated "All models failed" error.
\<close>

theorem runWithModelFallback_single_counterexample:
  "fst (runWithModelFallback None ''openai'' ''gpt-x'' run_all_down None) =
     Rethrown (ErrorInstance ''Error'' ''no route to openai'')"
  by (simp add: runWithModelFallback_def primary_only_candidates run_all_down_def
      after_loop_def str_eval)


subsection \<open>Cron job input normalization\<close>

lemma obj_get_set: "obj_get (obj_set props k v) k' = (if k' = k then v else obj_get props k')"
  by (induction props) (auto simp: obj_get_def)

lemma obj_set_same: "obj_get props k = v \<Longrightarrow> v \<noteq> JUndefined \<Longrightarrow> obj_set props k v = props"
  by (induction props) (auto simp: obj_get_def split: if_splits)

lemma coerceSchedule_idem: "coerceSchedule (coerceSchedule s) = coerceSchedule s"
  by (simp add: coerceSchedule_def obj_get_set)

lemma coercePayload_idem: "coercePayload (coercePayload p) = coercePayload p"
  by (simp add: coercePayload_def obj_get_set)

lemma normalize_stages:
  "normalizeCronJobInput (JObj props) options =
     JObj (if (case options of None \<Rightarrow> DEFAULT_OPTIONS | Some opts \<Rightarrow> opts) = Some True
           then st_target (st_wake (st_payload (st_schedule (unwrapJob props))))
           else st_payload (st_schedule (unwrapJob props)))"
  by (simp add: normalizeCronJobInput_def Let_def st_schedule_def st_payload_def st_wake_def
      st_target_def obj_get_set)

lemma record_props: "isRecord v \<Longrightarrow> JObj (props_of v) = v"
  by (cases v) simp_all

lemma st_schedule_fix: "ok_schedule obj \<Longrightarrow> st_schedule obj = obj"
  unfolding ok_schedule_def st_schedule_def
  by (auto intro!: obj_set_same simp: record_props)

lemma st_payload_fix: "ok_payload obj \<Longrightarrow> st_payload obj = obj"
  unfolding ok_payload_def st_payload_def
  by (auto intro!: obj_set_same simp: record_props)

lemma st_wake_fix: "js_truthy (obj_get obj ''wakeMode'') \<Longrightarrow> st_wake obj = obj"
  by (simp add: st_wake_def)

lemma ok_schedule_after: "ok_schedule (st_schedule obj)"
  by (simp add: ok_schedule_def st_schedule_def obj_get_set coerceSchedule_idem)

lemma ok_payload_after: "ok_payload (st_payload obj)"
  by (simp add: ok_payload_def st_payload_def obj_get_set coercePayload_idem)

lemma wake_after: "js_truthy (obj_get (st_wake obj) ''wakeMode'')"
  by (simp add: st_wake_def obj_get_set)

lemma st_target_idem: "st_target (st_target obj) = st_target obj"
  by (simp add: st_target_def obj_get_set)

lemma ok_schedule_set: "k \<noteq> ''schedule'' \<Longrightarrow> ok_schedule (obj_set obj k v) = ok_schedule obj"
  by (simp add: ok_schedule_def obj_get_set)

lemma ok_payload_set: "k \<noteq> ''payload'' \<Longrightarrow> ok_payload (obj_set obj k v) = ok_payload obj"
  by (simp add: ok_payload_def obj_get_set)

lemma ok_schedule_kept:
  "ok_schedule (st_payload obj) = ok_schedule obj"
  "ok_schedule (st_wake obj) = ok_schedule obj"
  "ok_schedule (st_target obj) = ok_schedule obj"
  by (simp_all add: st_payload_def st_wake_def st_target_def ok_schedule_set)

lemma ok_payload_kept:
  "ok_payload (st_wake obj) = ok_payload obj"
  "ok_payload (st_target obj) = ok_payload obj"
  by (simp_all add: st_wake_def st_target_def ok_payload_set)

lemma wake_kept:
  "js_truthy (obj_get (st_target obj) ''wakeMode'') = js_truthy (obj_get obj ''wakeMode'')"
  by (simp add: st_target_def obj_get_set)

lemma unwrap_plain: "\<not> is_envelope (JObj props) \<Longrightarrow> unwrapJob props = props"
  by (simp add: is_envelope_def unwrapJob_def)

lemma normalize_null: "\<not> isRecord x \<Longrightarrow> normalizeCronJobInput x options = JNull"
  by (simp add: normalizeCronJobInput_def)

lemma normalize_idem:
  assumes "\<not> is_envelope (normalizeCronJobInput x options)"
  shows "normalizeCronJobInput (normalizeCronJobInput x options) options
           = normalizeCronJobInput x options"
proof (cases "isRecord x")
  case False
  then show ?thesis by (simp add: normalize_null)
next
  case True
  then obtain props where x: "x = JObj props" by (cases x) simp_all
  let ?b = "unwrapJob props"
  show ?thesis
  proof (cases "(case options of None \<Rightarrow> DEFAULT_OPTIONS | Some opts \<Rightarrow> opts) = Some True")
    case True
    let ?r = "st_target (st_wake (st_payload (st_schedule ?b)))"
    have r: "normalizeCronJobInput x options = JObj ?r"
      using True by (simp add: x normalize_stages)
    with assms have u: "unwrapJob ?r = ?r" by (simp add: unwrap_plain)
    have 1: "st_schedule ?r = ?r"
      by (rule st_schedule_fix) (simp add: ok_schedule_kept ok_schedule_after)
    have 2: "st_payload ?r = ?r"
      by (rule st_payload_fix) (simp add: ok_payload_kept ok_payload_after)
    have 3: "st_wake ?r = ?r"
      by (rule st_wake_fix) (simp add: wake_kept wake_after)
    have "normalizeCronJobInput (JObj ?r) options = JObj (st_target (st_wake (st_payload (st_schedule (unwrapJob ?r)))))"
      using True by (simp add: normalize_stages)
    also have "\<dots> = JObj ?r" by (simp only: u 1 2 3 st_target_idem)
    finally show ?thesis by (simp only: r)
  next
    case False
    let ?r = "st_payload (st_schedule ?b)"
    have r: "normalizeCronJobInput x options = JObj ?r"
      using False by (simp add: x normalize_stages)
    with assms have u: "unwrapJob ?r = ?r" by (simp add: unwrap_plain)
    have 1: "st_schedule ?r = ?r"
      by (rule st_schedule_fix) (simp add: ok_schedule_kept ok_schedule_after)
    have 2: "st_payload ?r = ?r"
      by (rule st_payload_fix) (simp add: ok_payload_kept ok_payload_after)
    have "normalizeCronJobInput (JObj ?r) options = JObj (st_payload (st_schedule (unwrapJob ?r)))"
      using False by (simp add: normalize_stages)
    also have "\<dots> = JObj ?r" by (simp only: u 1 2)
    finally show ?thesis by (simp only: r)
  qed
qed

text \<open>
  C5, as the code has it: normalizing twice gives the same as normalizing once, for
  \<open>normalizeCronJobInput\<close>, \<open>normalizeCronJobCreate\<close> and \<open>normalizeCronJobPatch\<close>
  and for every input and options, provided the normalized value is not itself an
  envelope, that is, it has no \<open>data\<close> or \<open>job\<close> property holding a record (a
  value that is not a record normalizes to \<open>null\<close>, and \<open>null\<close> to \<open>null\<close>).
\<close>

theorem normalize_idempotent_unless_envelope:
  "(\<not> is_envelope (normalizeCronJobInput x options) \<longrightarrow>
      normalizeCronJobInput (normalizeCronJobInput x options) options
        = normalizeCronJobInput x options)
   \<and> (\<not> is_envelope (normalizeCronJobCreate x options) \<longrightarrow>
      normalizeCronJobCreate (normalizeCronJobCreate x options) options
        = normalizeCronJobCreate x options)
   \<and> (\<not> is_envelope (normalizeCronJobPatch x options) \<longrightarrow>
      normalizeCronJobPatch (normalizeCronJobPatch x options) options
        = normalizeCronJobPatch x options)"
  unfolding normalizeCronJobCreate_def normalizeCronJobPatch_def
  by (intro conjI impI normalize_idem)

lemmas js_eval = obj_get_def unwrapJob_def coerceSchedule_def coercePayload_def
  normalizeCronJobInput_def normalizeCronJobCreate_def normalizeCronJobPatch_def
  DEFAULT_OPTIONS_def is_envelope_def Let_def

lemma wrapped_job_created:
  "normalizeCronJobCreate wrapped_job None =
     JObj [(''name'', JStr ''digest''),
           (''schedule'', JObj [(''everyMs'', JNum 60000), (''kind'', JStr ''every'')]),
           (''payload'', JObj [(''message'', JStr ''summarize''), (''kind'', JStr ''agentTurn'')]),
           (''wakeMode'', JStr ''next-heartbeat''),
           (''sessionTarget'', JStr ''isolated'')]"
  by (simp add: wrapped_job_def js_eval)

theorem normalize_idempotent_witness:
  "normalizeCronJobCreate (normalizeCronJobCreate wrapped_job None) None =
     JObj [(''name'', JStr ''digest''),
           (''schedule'', JObj [(''everyMs'', JNum 60000), (''kind'', JStr ''every'')]),
           (''payload'', JObj [(''message'', JStr ''summarize''), (''kind'', JStr ''agentTurn'')]),
           (''wakeMode'', JStr ''next-heartbeat''),
           (''sessionTarget'', JStr ''isolated'')]"
proof -
  have "\<not> is_envelope (normalizeCronJobCreate wrapped_job None)"
    unfolding wrapped_job_created by (simp add: is_envelope_def obj_get_def)
  from normalize_idempotent_unless_envelope [of wrapped_job None, THEN conjunct2, THEN conjunct1,
      THEN mp, OF this]
  show ?thesis by (simp only: wrapped_job_created)
qed

text \<open>
  C5 as stated fails on an envelope inside an envelope: \<open>{data: {job: {name: "digest"}}}\<close>
  normalizes to \<open>{job: {name: "digest"}}\<close>, and that normalizes to \<open>{name: "digest"}\<close>.
\<close>

theorem normalize_envelope_counterexample:
  "normalizeCronJobInput nested_envelope None = JObj [(''job'', JObj [(''name'', JStr ''digest'')])]
   \<and> normalizeCronJobInput (normalizeCronJobInput nested_envelope None) None
       = JObj [(''name'', JStr ''digest'')]"
  by (simp add: nested_envelope_def js_eval)

subsection \<open>Heartbeat suppression\<close>

lemma str_includes_sublist: "str_includes s t = sublist t s"
  by (induction s) (simp_all add: sublist_Cons_right)

lemma strip_leading_flag: "snd (strip_leading t d) = (d \<or> prefix HEARTBEAT_TOKEN t)"
  by (induction t d rule: strip_leading.induct) (simp add: strip_leading.simps)

lemma strip_leading_done: "\<not> prefix HEARTBEAT_TOKEN (fst (strip_leading t d))"
  by (induction t d rule: strip_leading.induct) (simp add: strip_leading.simps)

lemma strip_leading_unchanged: "\<not> prefix HEARTBEAT_TOKEN t \<Longrightarrow> strip_leading t d = (t, d)"
  by (simp add: strip_leading.simps)

lemma strip_trailing_flag: "snd (strip_trailing t d) = (d \<or> suffix HEARTBEAT_TOKEN t)"
  by (induction t d rule: strip_trailing.induct) (simp add: strip_trailing.simps)

lemma strip_trailing_done: "\<not> suffix HEARTBEAT_TOKEN (fst (strip_trailing t d))"
  by (induction t d rule: strip_trailing.induct) (simp add: strip_trailing.simps)

lemma trimEnd_prefix: "prefix (trimEnd s) s"
proof -
  have "suffix (dropWhile is_ws (rev s)) (rev s)" by (rule suffix_dropWhile)
  then have "prefix (rev (dropWhile is_ws (rev s))) (rev (rev s))"
    by (simp only: suffix_to_prefix)
  then show ?thesis by (simp add: trimEnd_def)
qed

lemma trimStart_suffix: "suffix (trimStart s) s"
  unfolding trimStart_def by (rule suffix_dropWhile)

lemma strip_trailing_prefix: "prefix (fst (strip_trailing t d)) t"
proof (induction t d rule: strip_trailing.induct)
  case (1 t d)
  show ?case
  proof (cases "suffix HEARTBEAT_TOKEN t")
    case True
    let ?u = "trimEnd (take (length t - length HEARTBEAT_TOKEN) t)"
    have "prefix (fst (strip_trailing ?u True)) ?u" using 1 True by simp
    also have "prefix ?u (take (length t - length HEARTBEAT_TOKEN) t)" by (rule trimEnd_prefix)
    also have "prefix (take (length t - length HEARTBEAT_TOKEN) t) t" by (rule take_is_prefix)
    finally show ?thesis using True by (simp add: strip_trailing.simps [of t])
  next
    case False
    then show ?thesis by (simp add: strip_trailing.simps)
  qed
qed

lemma strip_leading_suffix: "suffix (fst (strip_leading t d)) t"
proof (induction t d rule: strip_leading.induct)
  case (1 t d)
  show ?case
  proof (cases "prefix HEARTBEAT_TOKEN t")
    case True
    let ?u = "trimStart (drop (length HEARTBEAT_TOKEN) t)"
    have "suffix (fst (strip_leading ?u True)) ?u" using 1 True by simp
    also have "suffix ?u (drop (length HEARTBEAT_TOKEN) t)" by (rule trimStart_suffix)
    also have "suffix (drop (length HEARTBEAT_TOKEN) t) t" by (rule suffix_drop)
    finally show ?thesis using True by (simp add: strip_leading.simps [of t])
  next
    case False
    then show ?thesis by (simp add: strip_leading.simps)
  qed
qed

lemma did_strip:
  "snd (strip_trailing (fst (strip_leading t False)) (snd (strip_leading t False)))
     = (prefix HEARTBEAT_TOKEN t \<or> suffix HEARTBEAT_TOKEN t)"
proof (cases "prefix HEARTBEAT_TOKEN t")
  case True
  then show ?thesis by (simp add: strip_trailing_flag strip_leading_flag)
next
  case False
  then show ?thesis by (simp add: strip_trailing_flag strip_leading_unchanged)
qed

lemma edge_stripped_no_prefix: "\<not> prefix HEARTBEAT_TOKEN (edge_stripped t)"
proof
  assume "prefix HEARTBEAT_TOKEN (edge_stripped t)"
  also have "prefix (edge_stripped t) (fst (strip_leading t False))"
    unfolding edge_stripped_def by (rule strip_trailing_prefix)
  finally show False using strip_leading_done [of t False] by simp
qed

lemma edge_stripped_no_suffix: "\<not> suffix HEARTBEAT_TOKEN (edge_stripped t)"
  unfolding edge_stripped_def by (rule strip_trailing_done)

lemma edge_stripped_sublist: "sublist (edge_stripped t) t"
proof -
  have "sublist (edge_stripped t) (fst (strip_leading t False))"
    unfolding edge_stripped_def by (intro prefix_imp_sublist strip_trailing_prefix)
  also have "sublist (fst (strip_leading t False)) t"
    by (intro suffix_imp_sublist strip_leading_suffix)
  finally show ?thesis .
qed

lemma edge_imp_includes:
  "prefix HEARTBEAT_TOKEN t \<or> suffix HEARTBEAT_TOKEN t \<Longrightarrow> str_includes t HEARTBEAT_TOKEN"
  unfolding str_includes_sublist by (auto intro: prefix_imp_sublist suffix_imp_sublist)

lemma trimEnd_idem: "trimEnd (trimEnd s) = trimEnd s"
  by (simp add: trimEnd_def)

lemma trimStart_no_lead: "trimStart s = [] \<or> \<not> is_ws (hd (trimStart s))"
  unfolding trimStart_def using hd_dropWhile [of is_ws s] by blast

lemma trimStart_fix: "u = [] \<or> \<not> is_ws (hd u) \<Longrightarrow> trimStart u = u"
  unfolding trimStart_def by (simp add: dropWhile_eq_self_iff)

lemma trimEnd_keeps_head:
  assumes "trimEnd u \<noteq> []"
  shows "hd (trimEnd u) = hd u"
proof -
  from trimEnd_prefix [of u] obtain v where "u = trimEnd u @ v" by (auto simp: prefix_def)
  with assms show ?thesis by (metis hd_append2)
qed

lemma trim_idem: "trim (trim s) = trim s"
proof -
  let ?u = "trimStart s"
  have "trimEnd ?u = [] \<or> \<not> is_ws (hd (trimEnd ?u))"
  proof (cases "trimEnd ?u = []")
    case True
    then show ?thesis by simp
  next
    case False
    then have u: "?u \<noteq> []" by (auto simp: trimEnd_def)
    with trimStart_no_lead [of s] have "\<not> is_ws (hd ?u)" by simp
    with trimEnd_keeps_head [OF False] show ?thesis by simp
  qed
  then have "trimStart (trimEnd ?u) = trimEnd ?u" by (rule trimStart_fix)
  then show ?thesis by (simp add: trim_def trimEnd_idem)
qed

lemma trim_Nil: "trim [] = []"
  by (simp add: trim_def trimStart_def trimEnd_def)

lemma token_head: "HEARTBEAT_TOKEN \<noteq> [] \<and> \<not> is_ws (hd HEARTBEAT_TOKEN)"
  by (simp add: HEARTBEAT_TOKEN_def is_ws_def)

lemma tokens_ws_Nil: "tokens_ws []"
  by (simp add: tokens_ws.simps)

lemma tokens_ws_space: "is_ws c \<Longrightarrow> tokens_ws s \<Longrightarrow> tokens_ws (c # s)"
  by (simp add: tokens_ws.simps [of "c # s"])

lemma tokens_ws_token: "tokens_ws s \<Longrightarrow> tokens_ws (HEARTBEAT_TOKEN @ s)"
  using token_head by (simp add: tokens_ws.simps [of "HEARTBEAT_TOKEN @ s"])

lemma tokens_ws_one: "tokens_ws HEARTBEAT_TOKEN"
  using tokens_ws_token [OF tokens_ws_Nil] by simp

lemma tokens_ws_spaces: "list_all is_ws w \<Longrightarrow> tokens_ws w"
  by (induction w) (simp_all add: tokens_ws_Nil tokens_ws_space)

lemma tokens_ws_append: "tokens_ws a \<Longrightarrow> tokens_ws b \<Longrightarrow> tokens_ws (a @ b)"
proof (induction a rule: tokens_ws.induct)
  case (1 s)
  show ?case
  proof (cases "s = []")
    case True
    with 1 show ?thesis by simp
  next
    case ne: False
    show ?thesis
    proof (cases "is_ws (hd s)")
      case True
      from ne obtain c cs where s: "s = c # cs" by (cases s) auto
      from 1(3) True ne have "tokens_ws (tl s)" by (simp add: tokens_ws.simps [of s])
      with 1(1) [OF ne True] 1(4) have "tokens_ws (tl s @ b)" by simp
      with True s show ?thesis by (simp add: tokens_ws_space)
    next
      case False
      with 1(3) ne have p: "prefix HEARTBEAT_TOKEN s"
        and t: "tokens_ws (drop (length HEARTBEAT_TOKEN) s)"
        by (simp_all add: tokens_ws.simps [of s] split: if_splits)
      from 1(2) [OF ne False p t 1(4)]
      have "tokens_ws (HEARTBEAT_TOKEN @ drop (length HEARTBEAT_TOKEN) s @ b)"
        by (rule tokens_ws_token)
      moreover from p have "s = HEARTBEAT_TOKEN @ drop (length HEARTBEAT_TOKEN) s"
        by (auto simp: prefix_def)
      ultimately show ?thesis by (metis append_assoc)
    qed
  qed
qed

lemma trimStart_split: "s = takeWhile is_ws s @ trimStart s"
  by (simp add: trimStart_def)

lemma takeWhile_all_ws: "list_all is_ws (takeWhile is_ws s)"
  by (induction s) simp_all

lemma trimEnd_split: "\<exists>w. s = trimEnd s @ w \<and> list_all is_ws w"
proof -
  have "rev s = takeWhile is_ws (rev s) @ dropWhile is_ws (rev s)" by simp
  then have "s = rev (dropWhile is_ws (rev s)) @ rev (takeWhile is_ws (rev s))"
    by (metis rev_append rev_rev_ident)
  moreover have "list_all is_ws (rev (takeWhile is_ws (rev s)))"
    using takeWhile_all_ws [of "rev s"] by (simp add: list_all_iff)
  ultimately show ?thesis unfolding trimEnd_def by blast
qed

lemma strip_leading_removed:
  "\<exists>pre. t = pre @ fst (strip_leading t d) \<and> tokens_ws pre"
proof (induction t d rule: strip_leading.induct)
  case (1 t d)
  show ?case
  proof (cases "prefix HEARTBEAT_TOKEN t")
    case True
    let ?r = "drop (length HEARTBEAT_TOKEN) t"
    from 1 [OF True] obtain pre where
      pre: "trimStart ?r = pre @ fst (strip_leading (trimStart ?r) True)" and tw: "tokens_ws pre"
      by blast
    from True have "t = HEARTBEAT_TOKEN @ ?r" by (auto simp: prefix_def)
    also have "?r = takeWhile is_ws ?r @ trimStart ?r" by (rule trimStart_split)
    finally have "t = (HEARTBEAT_TOKEN @ takeWhile is_ws ?r @ pre)
                        @ fst (strip_leading (trimStart ?r) True)"
      using pre by (metis append_assoc)
    moreover have "tokens_ws (HEARTBEAT_TOKEN @ takeWhile is_ws ?r @ pre)"
      by (rule tokens_ws_token [OF tokens_ws_append [OF tokens_ws_spaces [OF takeWhile_all_ws] tw]])
    moreover have "fst (strip_leading t d) = fst (strip_leading (trimStart ?r) True)"
      using True by (simp add: strip_leading.simps [of t])
    ultimately show ?thesis by metis
  next
    case False
    then show ?thesis
      by (intro exI [of _ "[]"]) (simp add: strip_leading.simps tokens_ws_Nil)
  qed
qed

lemma strip_trailing_removed:
  "\<exists>post. t = fst (strip_trailing t d) @ post \<and> tokens_ws post"
proof (induction t d rule: strip_trailing.induct)
  case (1 t d)
  show ?case
  proof (cases "suffix HEARTBEAT_TOKEN t")
    case True
    let ?r = "take (length t - length HEARTBEAT_TOKEN) t"
    from 1 [OF True] obtain post where
      post: "trimEnd ?r = fst (strip_trailing (trimEnd ?r) True) @ post" and tw: "tokens_ws post"
      by blast
    from trimEnd_split [of ?r] obtain w where w: "?r = trimEnd ?r @ w" and ws: "list_all is_ws w"
      by blast
    from True have "t = ?r @ HEARTBEAT_TOKEN" by (auto simp: suffix_def)
    with w post have "t = fst (strip_trailing (trimEnd ?r) True) @ (post @ w @ HEARTBEAT_TOKEN)"
      by (metis append_assoc)
    moreover have "tokens_ws (post @ w @ HEARTBEAT_TOKEN)"
      by (rule tokens_ws_append [OF tw tokens_ws_append [OF tokens_ws_spaces [OF ws] tokens_ws_one]])
    moreover have "fst (strip_trailing t d) = fst (strip_trailing (trimEnd ?r) True)"
      using True by (simp add: strip_trailing.simps [of t])
    ultimately show ?thesis by metis
  next
    case False
    then show ?thesis
      by (intro exI [of _ "[]"]) (simp add: strip_trailing.simps tokens_ws_Nil)
  qed
qed

lemma edge_stripped_removed:
  "\<exists>pre post. t = pre @ edge_stripped t @ post \<and> tokens_ws pre \<and> tokens_ws post"
proof -
  from strip_leading_removed [of t False] obtain pre where
    a: "t = pre @ fst (strip_leading t False)" and pw: "tokens_ws pre" by blast
  from strip_trailing_removed [of "fst (strip_leading t False)" "snd (strip_leading t False)"]
  obtain post where b: "fst (strip_leading t False) = edge_stripped t @ post"
    and qw: "tokens_ws post" unfolding edge_stripped_def by blast
  from a b have "t = pre @ edge_stripped t @ post" by simp
  with pw qw show ?thesis by blast
qed

lemma trimEnd_no_trail: "trimEnd s = [] \<or> \<not> is_ws (last (trimEnd s))"
proof -
  have "dropWhile is_ws (rev s) = [] \<or> \<not> is_ws (hd (dropWhile is_ws (rev s)))"
    using hd_dropWhile [of is_ws "rev s"] by blast
  then show ?thesis unfolding trimEnd_def by (auto simp: last_rev)
qed

lemma trimEnd_fix: "u = [] \<or> \<not> is_ws (last u) \<Longrightarrow> trimEnd u = u"
proof -
  assume "u = [] \<or> \<not> is_ws (last u)"
  then have "rev u = [] \<or> \<not> is_ws (hd (rev u))" by (auto simp: hd_rev)
  then have "dropWhile is_ws (rev u) = rev u" by (simp add: dropWhile_eq_self_iff)
  then show ?thesis by (simp add: trimEnd_def)
qed

lemma trim_fix: "s = [] \<or> (\<not> is_ws (hd s) \<and> \<not> is_ws (last s)) \<Longrightarrow> trim s = s"
  unfolding trim_def by (auto simp: trimStart_fix trimEnd_fix)

lemma trim_edges: "trim s = s \<Longrightarrow> s = [] \<or> (\<not> is_ws (hd s) \<and> \<not> is_ws (last s))"
proof -
  assume t: "trim s = s"
  show ?thesis
  proof (cases "s = []")
    case True
    then show ?thesis by simp
  next
    case False
    let ?u = "trimStart s"
    from t False have ne: "trimEnd ?u \<noteq> []" by (simp add: trim_def)
    then have u: "?u \<noteq> []" by (auto simp: trimEnd_def)
    with trimStart_no_lead [of s] have "\<not> is_ws (hd ?u)" by simp
    with trimEnd_keeps_head [OF ne] have "\<not> is_ws (hd (trimEnd ?u))" by simp
    moreover from trimEnd_no_trail [of ?u] ne have "\<not> is_ws (last (trimEnd ?u))" by simp
    ultimately show ?thesis using t by (simp add: trim_def)
  qed
qed

lemma suffix_last: "suffix u x \<Longrightarrow> u \<noteq> [] \<Longrightarrow> last u = last x"
  by (auto simp: suffix_def)

lemma prefix_hd: "prefix u x \<Longrightarrow> u \<noteq> [] \<Longrightarrow> hd u = hd x"
  by (auto simp: prefix_def)

lemma trimmed_suffix_trimStart:
  assumes "trim x = x" and "suffix u x"
  shows "trim (trimStart u) = trimStart u"
proof (cases "trimStart u = []")
  case True
  then show ?thesis by (simp add: trim_Nil)
next
  case False
  from trimStart_suffix [of u] assms(2) have s: "suffix (trimStart u) x"
    by (rule suffix_order.trans)
  with False have x: "x \<noteq> []" by auto
  from suffix_last [OF s False] trim_edges [OF assms(1)] x
  have "\<not> is_ws (last (trimStart u))" by simp
  moreover from trimStart_no_lead [of u] False have "\<not> is_ws (hd (trimStart u))" by simp
  ultimately show ?thesis by (intro trim_fix) simp
qed

lemma trimmed_prefix_trimEnd:
  assumes "trim x = x" and "prefix u x"
  shows "trim (trimEnd u) = trimEnd u"
proof (cases "trimEnd u = []")
  case True
  then show ?thesis by (simp add: trim_Nil)
next
  case False
  from trimEnd_prefix [of u] assms(2) have s: "prefix (trimEnd u) x"
    by (rule prefix_order.trans)
  with False have x: "x \<noteq> []" by auto
  from prefix_hd [OF s False] trim_edges [OF assms(1)] x
  have "\<not> is_ws (hd (trimEnd u))" by simp
  moreover from trimEnd_no_trail [of u] False have "\<not> is_ws (last (trimEnd u))" by simp
  ultimately show ?thesis by (intro trim_fix) simp
qed

lemma strip_leading_trimmed:
  "trim t = t \<Longrightarrow> trim (fst (strip_leading t d)) = fst (strip_leading t d)"
proof (induction t d rule: strip_leading.induct)
  case (1 t d)
  show ?case
  proof (cases "prefix HEARTBEAT_TOKEN t")
    case True
    have "trim (trimStart (drop (length HEARTBEAT_TOKEN) t))
            = trimStart (drop (length HEARTBEAT_TOKEN) t)"
      by (rule trimmed_suffix_trimStart [OF 1(2) suffix_drop])
    from 1(1) [OF True this] True show ?thesis by (simp add: strip_leading.simps [of t])
  next
    case False
    with 1(2) show ?thesis by (simp add: strip_leading.simps)
  qed
qed

lemma strip_trailing_trimmed:
  "trim t = t \<Longrightarrow> trim (fst (strip_trailing t d)) = fst (strip_trailing t d)"
proof (induction t d rule: strip_trailing.induct)
  case (1 t d)
  show ?case
  proof (cases "suffix HEARTBEAT_TOKEN t")
    case True
    have "trim (trimEnd (take (length t - length HEARTBEAT_TOKEN) t))
            = trimEnd (take (length t - length HEARTBEAT_TOKEN) t)"
      by (rule trimmed_prefix_trimEnd [OF 1(2) take_is_prefix])
    from 1(1) [OF True this] True show ?thesis by (simp add: strip_trailing.simps [of t])
  next
    case False
    with 1(2) show ?thesis by (simp add: strip_trailing.simps)
  qed
qed

lemma edge_stripped_trimmed: "trim t = t \<Longrightarrow> trim (edge_stripped t) = edge_stripped t"
  unfolding edge_stripped_def by (intro strip_trailing_trimmed strip_leading_trimmed)

lemma edges_loop_removed:
  "trim t = t \<Longrightarrow>
   \<exists>pre post. t = pre @ fst (edges_loop t d) @ post \<and> tokens_ws pre \<and> tokens_ws post
     \<and> trim (fst (edges_loop t d)) = fst (edges_loop t d)
     \<and> \<not> prefix HEARTBEAT_TOKEN (fst (edges_loop t d))
     \<and> \<not> suffix HEARTBEAT_TOKEN (fst (edges_loop t d))"
proof (induction t d rule: edges_loop.induct)
  case (1 t d)
  note tt = 1(3)
  show ?case
  proof (cases "prefix HEARTBEAT_TOKEN t")
    case True
    let ?r = "drop (length HEARTBEAT_TOKEN) t"
    let ?m = "fst (edges_loop (trimStart ?r) True)"
    have tr: "trim (trimStart ?r) = trimStart ?r"
      by (rule trimmed_suffix_trimStart [OF tt suffix_drop])
    from True tt have p: "prefix HEARTBEAT_TOKEN (trim t)" by simp
    from 1(1) [OF refl p] tt tr obtain pre post where
      d: "trimStart ?r = pre @ ?m @ post" and pw: "tokens_ws pre" and qw: "tokens_ws post"
      and rest: "trim ?m = ?m" "\<not> prefix HEARTBEAT_TOKEN ?m" "\<not> suffix HEARTBEAT_TOKEN ?m"
      by auto
    have e: "fst (edges_loop t d) = ?m"
      using True tt by (simp add: edges_loop.simps [of t] Let_def)
    from True have "t = HEARTBEAT_TOKEN @ ?r" by (auto simp: prefix_def)
    also have "?r = takeWhile is_ws ?r @ trimStart ?r" by (rule trimStart_split)
    finally have "t = (HEARTBEAT_TOKEN @ takeWhile is_ws ?r @ pre) @ ?m @ post"
      using d by (metis append_assoc)
    moreover have "tokens_ws (HEARTBEAT_TOKEN @ takeWhile is_ws ?r @ pre)"
      by (rule tokens_ws_token [OF tokens_ws_append [OF tokens_ws_spaces [OF takeWhile_all_ws] pw]])
    ultimately show ?thesis unfolding e using qw rest by blast
  next
    case np: False
    show ?thesis
    proof (cases "suffix HEARTBEAT_TOKEN t")
      case True
      let ?r = "take (length t - length HEARTBEAT_TOKEN) t"
      let ?m = "fst (edges_loop (trimEnd ?r) True)"
      have tr: "trim (trimEnd ?r) = trimEnd ?r"
        by (rule trimmed_prefix_trimEnd [OF tt take_is_prefix])
      from np tt have np': "\<not> prefix HEARTBEAT_TOKEN (trim t)" by simp
      from True tt have s: "suffix HEARTBEAT_TOKEN (trim t)" by simp
      from 1(2) [OF refl np' s] tt tr obtain pre post where
        d: "trimEnd ?r = pre @ ?m @ post" and pw: "tokens_ws pre" and qw: "tokens_ws post"
        and rest: "trim ?m = ?m" "\<not> prefix HEARTBEAT_TOKEN ?m" "\<not> suffix HEARTBEAT_TOKEN ?m"
        by auto
      have e: "fst (edges_loop t d) = ?m"
        using True np tt by (simp add: edges_loop.simps [of t] Let_def)
      from trimEnd_split [of ?r] obtain w where w: "?r = trimEnd ?r @ w"
        and ws: "list_all is_ws w" by blast
      from True have "t = ?r @ HEARTBEAT_TOKEN" by (auto simp: suffix_def)
      with w d have "t = pre @ ?m @ (post @ w @ HEARTBEAT_TOKEN)" by (metis append_assoc)
      moreover have "tokens_ws (post @ w @ HEARTBEAT_TOKEN)"
        by (rule tokens_ws_append [OF qw tokens_ws_append [OF tokens_ws_spaces [OF ws] tokens_ws_one]])
      ultimately show ?thesis unfolding e using pw rest by blast
    next
      case False
      with np tt have e: "fst (edges_loop t d) = t"
        by (simp add: edges_loop.simps [of t] Let_def)
      have "t = [] @ t @ []" by simp
      with np False tt show ?thesis unfolding e using tokens_ws_Nil by blast
    qed
  qed
qed

lemma stripTokenAtEdges_removed:
  assumes "prefix HEARTBEAT_TOKEN (trim s) \<or> suffix HEARTBEAT_TOKEN (trim s)"
  shows "\<exists>pre mid post. trim s = pre @ mid @ post \<and> tokens_ws pre \<and> tokens_ws post
           \<and> trim mid = mid \<and> \<not> prefix HEARTBEAT_TOKEN mid \<and> \<not> suffix HEARTBEAT_TOKEN mid
           \<and> fst (stripTokenAtEdges (trim s)) = trim (collapse_ws mid)"
proof -
  from assms have inc: "str_includes (trim s) HEARTBEAT_TOKEN" by (rule edge_imp_includes)
  from assms have ne: "trim s \<noteq> []" by (auto simp: HEARTBEAT_TOKEN_def)
  have e: "fst (stripTokenAtEdges (trim s)) = trim (collapse_ws (fst (edges_loop (trim s) False)))"
    using inc ne by (simp add: stripTokenAtEdges_def Let_def trim_idem)
  from edges_loop_removed [OF trim_idem, of s False] show ?thesis unfolding e by blast
qed

lemma token_inner:
  "c \<in> set (tl HEARTBEAT_TOKEN) \<Longrightarrow> \<not> is_ws c \<and> c \<noteq> hd HEARTBEAT_TOKEN"
  by (auto simp: HEARTBEAT_TOKEN_def is_ws_def)

lemma token_split:
  assumes "a @ b = HEARTBEAT_TOKEN" "a \<noteq> []" "b \<noteq> []"
  shows "\<not> is_ws (hd b) \<and> hd b \<noteq> hd HEARTBEAT_TOKEN"
proof -
  from assms(2) obtain a0 as where a: "a = a0 # as" by (cases a) auto
  with assms(1) have "tl HEARTBEAT_TOKEN = as @ b" by (metis append_Cons list.sel(3))
  with assms(3) have "hd b \<in> set (tl HEARTBEAT_TOKEN)" by simp
  then show ?thesis by (rule token_inner)
qed

lemma tokens_ws_start:
  "tokens_ws s \<Longrightarrow> s \<noteq> [] \<Longrightarrow> is_ws (hd s) \<or> prefix HEARTBEAT_TOKEN s"
  by (simp add: tokens_ws.simps [of s] split: if_splits)

lemma prefix_token_append:
  assumes p: "prefix HEARTBEAT_TOKEN (x @ q)" and q: "tokens_ws q" and x: "x \<noteq> []"
  shows "prefix HEARTBEAT_TOKEN x"
proof (rule ccontr)
  assume n: "\<not> prefix HEARTBEAT_TOKEN x"
  with p obtain us where us: "HEARTBEAT_TOKEN = x @ us" "prefix us q"
    by (auto simp: prefix_append)
  from n us(1) have une: "us \<noteq> []" by auto
  from token_split [OF us(1) [symmetric] x une]
  have h: "\<not> is_ws (hd us)" "hd us \<noteq> hd HEARTBEAT_TOKEN" by simp_all
  from us(2) une have qne: "q \<noteq> []" and hq: "hd q = hd us" by (auto simp: prefix_def)
  from tokens_ws_start [OF q qne] h(1) hq have "prefix HEARTBEAT_TOKEN q" by simp
  with token_head have "hd q = hd HEARTBEAT_TOKEN" by (auto simp: prefix_def)
  with hq h(2) show False by simp
qed

lemma tokens_ws_cancel_left: "tokens_ws a \<Longrightarrow> tokens_ws (a @ b) \<Longrightarrow> tokens_ws b"
proof (induction a rule: tokens_ws.induct)
  case (1 s)
  show ?case
  proof (cases "s = []")
    case True
    with 1(4) show ?thesis by simp
  next
    case ne: False
    show ?thesis
    proof (cases "is_ws (hd s)")
      case True
      from 1(3) True ne have a: "tokens_ws (tl s)" by (simp add: tokens_ws.simps [of s])
      from ne True have "hd (s @ b) = hd s" "tl (s @ b) = tl s @ b" by simp_all
      with 1(4) True ne have "tokens_ws (tl s @ b)" by (simp add: tokens_ws.simps [of "s @ b"])
      from 1(1) [OF ne True a this] show ?thesis .
    next
      case False
      with 1(3) ne have p: "prefix HEARTBEAT_TOKEN s"
        and t: "tokens_ws (drop (length HEARTBEAT_TOKEN) s)"
        by (simp_all add: tokens_ws.simps [of s] split: if_splits)
      from p have l: "length HEARTBEAT_TOKEN \<le> length s" by (rule prefix_length_le)
      from p have pb: "prefix HEARTBEAT_TOKEN (s @ b)" by (rule prefix_prefix)
      from ne False have "hd (s @ b) = hd s" by simp
      with 1(4) False ne pb have "tokens_ws (drop (length HEARTBEAT_TOKEN) (s @ b))"
        by (simp add: tokens_ws.simps [of "s @ b"])
      with l have "tokens_ws (drop (length HEARTBEAT_TOKEN) s @ b)" by simp
      from 1(2) [OF ne False p t this] show ?thesis .
    qed
  qed
qed

lemma tokens_ws_cancel_right: "tokens_ws (x @ q) \<Longrightarrow> tokens_ws q \<Longrightarrow> tokens_ws x"
proof (induction x rule: tokens_ws.induct)
  case (1 s)
  show ?case
  proof (cases "s = []")
    case True
    then show ?thesis by (simp add: tokens_ws_Nil)
  next
    case ne: False
    show ?thesis
    proof (cases "is_ws (hd s)")
      case True
      from ne True have "hd (s @ q) = hd s" "tl (s @ q) = tl s @ q" by simp_all
      with 1(3) True ne have "tokens_ws (tl s @ q)" by (simp add: tokens_ws.simps [of "s @ q"])
      from 1(1) [OF ne True this 1(4)] True ne show ?thesis
        by (simp add: tokens_ws.simps [of s])
    next
      case False
      from ne False have h: "hd (s @ q) = hd s" by simp
      with 1(3) False ne have pq: "prefix HEARTBEAT_TOKEN (s @ q)"
        and t: "tokens_ws (drop (length HEARTBEAT_TOKEN) (s @ q))"
        by (simp_all add: tokens_ws.simps [of "s @ q"] split: if_splits)
      from prefix_token_append [OF pq 1(4) ne] have p: "prefix HEARTBEAT_TOKEN s" .
      then have l: "length HEARTBEAT_TOKEN \<le> length s" by (rule prefix_length_le)
      with t have "tokens_ws (drop (length HEARTBEAT_TOKEN) s @ q)" by simp
      from 1(2) [OF ne False p this 1(4)] p False ne show ?thesis
        by (simp add: tokens_ws.simps [of s])
    qed
  qed
qed

lemma tokens_ws_end:
  "tokens_ws x \<Longrightarrow> x \<noteq> [] \<Longrightarrow> is_ws (last x) \<or> suffix HEARTBEAT_TOKEN x"
proof (induction x rule: tokens_ws.induct)
  case (1 s)
  note ne = 1(4)
  show ?case
  proof (cases "is_ws (hd s)")
    case True
    from 1(3) True ne have a: "tokens_ws (tl s)" by (simp add: tokens_ws.simps [of s])
    show ?thesis
    proof (cases "tl s = []")
      case e: True
      with ne have "last s = hd s" by (cases s) auto
      with True show ?thesis by simp
    next
      case f: False
      from 1(1) [OF ne True a f] have "is_ws (last (tl s)) \<or> suffix HEARTBEAT_TOKEN (tl s)" .
      moreover from f ne have "last (tl s) = last s" by (cases s) auto
      moreover have "suffix (tl s) s" by (rule suffix_tl)
      ultimately show ?thesis by (auto intro: suffix_order.trans)
    qed
  next
    case False
    with 1(3) ne have p: "prefix HEARTBEAT_TOKEN s"
      and t: "tokens_ws (drop (length HEARTBEAT_TOKEN) s)"
      by (simp_all add: tokens_ws.simps [of s] split: if_splits)
    let ?r = "drop (length HEARTBEAT_TOKEN) s"
    from p have s: "s = HEARTBEAT_TOKEN @ ?r" by (auto simp: prefix_def)
    show ?thesis
    proof (cases "?r = []")
      case True
      with s have "s = HEARTBEAT_TOKEN" by simp
      then show ?thesis by simp
    next
      case f: False
      from 1(2) [OF ne False p t f] have "is_ws (last ?r) \<or> suffix HEARTBEAT_TOKEN ?r" .
      moreover from f s have "last ?r = last s" by (metis last_appendR)
      moreover have "suffix ?r s" by (rule suffix_drop)
      ultimately show ?thesis by (auto intro: suffix_order.trans)
    qed
  qed
qed

lemma remainder_stuck:
  assumes "rest \<noteq> []" "trim rest = rest" "\<not> prefix HEARTBEAT_TOKEN rest" "tokens_ws post"
  shows "\<not> is_ws (hd (rest @ post)) \<and> \<not> prefix HEARTBEAT_TOKEN (rest @ post)"
proof -
  from trim_edges [OF assms(2)] assms(1) have "\<not> is_ws (hd (rest @ post))" by simp
  moreover have "\<not> prefix HEARTBEAT_TOKEN (rest @ post)"
    using prefix_token_append [OF _ assms(4) assms(1)] assms(3) by blast
  ultimately show ?thesis by simp
qed

lemma remainder_not_tokens:
  assumes "rest \<noteq> []" "trim rest = rest" "\<not> prefix HEARTBEAT_TOKEN rest" "tokens_ws post"
  shows "\<not> tokens_ws (x @ rest @ post) \<or> \<not> tokens_ws x"
proof -
  have "\<not> tokens_ws (rest @ post)"
    using tokens_ws_start [of "rest @ post"] remainder_stuck [OF assms] assms(1) by auto
  then show ?thesis using tokens_ws_cancel_left [of x "rest @ post"] by blast
qed

lemma remainder_same_start:
  assumes eq: "pre @ r = pre' @ r'"
    and p: "tokens_ws pre" "tokens_ws pre'"
    and r: "r \<noteq> []" "\<not> is_ws (hd r)" "\<not> prefix HEARTBEAT_TOKEN r"
    and r': "r' \<noteq> []" "\<not> is_ws (hd r')" "\<not> prefix HEARTBEAT_TOKEN r'"
  shows "r = r'"
proof -
  from eq consider x where "pre = pre' @ x" "x @ r = r'" | x where "pre @ x = pre'" "r = x @ r'"
    by (auto simp: append_eq_append_conv2)
  then show ?thesis
  proof cases
    case 1
    from tokens_ws_cancel_left [OF p(2)] p(1) 1(1) have tx: "tokens_ws x" by simp
    have "x = []"
    proof (rule ccontr)
      assume ne: "x \<noteq> []"
      from tokens_ws_start [OF tx ne] show False
      proof
        assume "is_ws (hd x)"
        with ne 1(2) r'(2) show False by auto
      next
        assume "prefix HEARTBEAT_TOKEN x"
        then have "prefix HEARTBEAT_TOKEN (x @ r)" by (rule prefix_prefix)
        with 1(2) r'(3) show False by simp
      qed
    qed
    with 1(2) show ?thesis by simp
  next
    case 2
    from tokens_ws_cancel_left [OF p(1)] p(2) 2(1) have tx: "tokens_ws x" by simp
    have "x = []"
    proof (rule ccontr)
      assume ne: "x \<noteq> []"
      from tokens_ws_start [OF tx ne] show False
      proof
        assume "is_ws (hd x)"
        with ne 2(2) r(2) show False by auto
      next
        assume "prefix HEARTBEAT_TOKEN x"
        then have "prefix HEARTBEAT_TOKEN (x @ r')" by (rule prefix_prefix)
        with 2(2) r(3) show False by simp
      qed
    qed
    with 2(2) show ?thesis by simp
  qed
qed

lemma remainder_same_end:
  assumes eq: "rest @ post = rest' @ post'"
    and p: "tokens_ws post" "tokens_ws post'"
    and r: "rest \<noteq> []" "trim rest = rest" "\<not> suffix HEARTBEAT_TOKEN rest"
    and r': "rest' \<noteq> []" "trim rest' = rest'" "\<not> suffix HEARTBEAT_TOKEN rest'"
  shows "rest = rest'"
proof -
  have stop: "y = []" if y: "tokens_ws y" and a: "a = b @ y" and b: "b \<noteq> []"
    and ta: "trim a = a" and sa: "\<not> suffix HEARTBEAT_TOKEN a" for y a b :: string
  proof (rule ccontr)
    assume ne: "y \<noteq> []"
    from a b have ane: "a \<noteq> []" by simp
    from tokens_ws_end [OF y ne] show False
    proof
      assume "is_ws (last y)"
      moreover from a ne have "last a = last y" by simp
      ultimately show False using trim_edges [OF ta] ane by simp
    next
      assume "suffix HEARTBEAT_TOKEN y"
      moreover have "suffix y a" using a by (simp add: suffix_def)
      ultimately have "suffix HEARTBEAT_TOKEN a" by (rule suffix_order.trans)
      with sa show False by simp
    qed
  qed
  from eq consider y where "rest = rest' @ y" "y @ post = post'"
    | y where "rest @ y = rest'" "post = y @ post'"
    by (auto simp: append_eq_append_conv2)
  then show ?thesis
  proof cases
    case 1
    from tokens_ws_cancel_right [of y post] p 1(2) have "tokens_ws y" by simp
    from stop [OF this 1(1) r'(1) r(2) r(3)] 1(1) show ?thesis by simp
  next
    case 2
    from tokens_ws_cancel_right [of y post'] p 2(2) have "tokens_ws y" by simp
    from stop [OF this 2(1) [symmetric] r(1) r'(2) r'(3)] 2(1) show ?thesis by simp
  qed
qed

lemma remainder_unique:
  assumes eq: "pre @ rest @ post = pre' @ rest' @ post'"
    and d: "tokens_ws pre" "tokens_ws post" "trim rest = rest"
      "\<not> prefix HEARTBEAT_TOKEN rest" "\<not> suffix HEARTBEAT_TOKEN rest"
    and d': "tokens_ws pre'" "tokens_ws post'" "trim rest' = rest'"
      "\<not> prefix HEARTBEAT_TOKEN rest'" "\<not> suffix HEARTBEAT_TOKEN rest'"
  shows "rest = rest'"
proof (cases "rest = []")
  case True
  with eq d have all: "tokens_ws (pre' @ rest' @ post')"
    by (metis append_Nil tokens_ws_append)
  show ?thesis
  proof (rule ccontr)
    assume "rest \<noteq> rest'"
    with True have ne: "rest' \<noteq> []" by simp
    from remainder_not_tokens [OF ne d'(3) d'(4) d'(2), of pre'] all d'(1) show False by simp
  qed
next
  case ne: False
  show ?thesis
  proof (cases "rest' = []")
    case True
    with eq d' have all: "tokens_ws (pre @ rest @ post)"
      by (metis append_Nil tokens_ws_append)
    from remainder_not_tokens [OF ne d(3) d(4) d(2), of pre] all d(1) show ?thesis by simp
  next
    case ne': False
    note s = remainder_stuck [OF ne d(3) d(4) d(2)] and s' = remainder_stuck [OF ne' d'(3) d'(4) d'(2)]
    have "rest @ post = rest' @ post'"
      by (rule remainder_same_start [OF eq d(1) d'(1)]) (use ne ne' s s' in simp_all)
    from remainder_same_end [OF this d(2) d'(2) ne d(3) d(5) ne' d'(3) d'(5)]
    show ?thesis .
  qed
qed

lemma edges_loop_flag:
  "snd (edges_loop t d) = (d \<or> prefix HEARTBEAT_TOKEN (trim t) \<or> suffix HEARTBEAT_TOKEN (trim t))"
proof (induction t d rule: edges_loop.induct)
  case (1 t d)
  show ?case
  proof (cases "prefix HEARTBEAT_TOKEN (trim t)")
    case True
    with 1(1) [OF refl True] show ?thesis by (simp add: edges_loop.simps [of t] Let_def)
  next
    case False
    show ?thesis
    proof (cases "suffix HEARTBEAT_TOKEN (trim t)")
      case True
      with False 1(2) [OF refl False True] show ?thesis
        by (simp add: edges_loop.simps [of t] Let_def)
    next
      case no: False
      with False show ?thesis by (simp add: edges_loop.simps [of t] Let_def)
    qed
  qed
qed

lemma stripTokenAtEdges_flag:
  "snd (stripTokenAtEdges (trim s)) =
     (prefix HEARTBEAT_TOKEN (trim s) \<or> suffix HEARTBEAT_TOKEN (trim s))"
proof (cases "prefix HEARTBEAT_TOKEN (trim s) \<or> suffix HEARTBEAT_TOKEN (trim s)")
  case True
  then have inc: "str_includes (trim s) HEARTBEAT_TOKEN" by (rule edge_imp_includes)
  from True have ne: "trim s \<noteq> []" by (auto simp: HEARTBEAT_TOKEN_def)
  from True inc ne show ?thesis
    by (simp add: stripTokenAtEdges_def Let_def trim_idem edges_loop_flag)
next
  case False
  then show ?thesis
    by (simp add: stripTokenAtEdges_def Let_def trim_idem edges_loop_flag)
qed

lemma process_shouldDeliver:
  "shouldDeliver (processHeartbeatResponse response ackMaxChars) =
     (\<not> (trim response = [] \<or>
         ((prefix HEARTBEAT_TOKEN (trim response) \<or> suffix HEARTBEAT_TOKEN (trim response)) \<and>
          (edge_stripped (trim response) = [] \<or>
           int (length (edge_stripped (trim response)))
             \<le> (case ackMaxChars of None \<Rightarrow> 30 | Some n \<Rightarrow> n)))))"
proof (cases "prefix HEARTBEAT_TOKEN (trim response) \<or> suffix HEARTBEAT_TOKEN (trim response)")
  case True
  then have inc: "str_includes (trim response) HEARTBEAT_TOKEN" by (rule edge_imp_includes)
  from True have ne: "trim response \<noteq> []" by (auto simp: HEARTBEAT_TOKEN_def)
  from True inc ne show ?thesis
    by (simp add: processHeartbeatResponse_def Let_def did_strip edge_stripped_def)
next
  case False
  then show ?thesis
    by (simp add: processHeartbeatResponse_def Let_def did_strip)
qed

lemma process_text:
  "hb_text (processHeartbeatResponse response ackMaxChars) =
     (if \<not> shouldDeliver (processHeartbeatResponse response ackMaxChars) then []
      else if prefix HEARTBEAT_TOKEN (trim response) \<or> suffix HEARTBEAT_TOKEN (trim response)
      then edge_stripped (trim response)
      else trim response)"
proof (cases "prefix HEARTBEAT_TOKEN (trim response) \<or> suffix HEARTBEAT_TOKEN (trim response)")
  case True
  then have inc: "str_includes (trim response) HEARTBEAT_TOKEN" by (rule edge_imp_includes)
  from True have ne: "trim response \<noteq> []" by (auto simp: HEARTBEAT_TOKEN_def)
  from True inc ne show ?thesis
    by (simp add: processHeartbeatResponse_def Let_def did_strip edge_stripped_def)
next
  case False
  then show ?thesis
    by (simp add: processHeartbeatResponse_def Let_def did_strip)
qed

lemma stripTokenAtEdges_trimmed: "trim (fst (stripTokenAtEdges s)) = fst (stripTokenAtEdges s)"
  by (simp add: stripTokenAtEdges_def Let_def trim_idem trim_Nil)

lemma strip_shouldSkip:
  "shouldSkip (stripHeartbeatToken (Some raw) mode maxAckChars) =
     (trim raw = [] \<or>
      ((prefix HEARTBEAT_TOKEN (trim raw) \<or> suffix HEARTBEAT_TOKEN (trim raw)) \<and>
       (fst (stripTokenAtEdges (trim raw)) = [] \<or>
        (mode = Some ModeHeartbeat \<and>
         int (length (fst (stripTokenAtEdges (trim raw))))
           \<le> max 0 (case maxAckChars of
                      None \<Rightarrow> DEFAULT_HEARTBEAT_ACK_MAX_CHARS | Some n \<Rightarrow> n)))))"
proof (cases "trim raw = []")
  case True
  then show ?thesis by (simp add: stripHeartbeatToken_def)
next
  case ne: False
  then have r: "raw \<noteq> []" by (auto simp: trim_Nil)
  show ?thesis
  proof (cases "prefix HEARTBEAT_TOKEN (trim raw) \<or> suffix HEARTBEAT_TOKEN (trim raw)")
    case True
    then have inc: "str_includes (trim raw) HEARTBEAT_TOKEN" by (rule edge_imp_includes)
    have m: "((case mode of None \<Rightarrow> ModeMessage | Some m \<Rightarrow> m) = ModeHeartbeat)
               = (mode = Some ModeHeartbeat)"
      by (cases mode) auto
    from True inc ne r show ?thesis
      by (simp add: stripHeartbeatToken_def Let_def stripTokenAtEdges_flag
          stripTokenAtEdges_trimmed m)
  next
    case False
    with ne r show ?thesis
      by (simp add: stripHeartbeatToken_def Let_def stripTokenAtEdges_flag)
  qed
qed

lemma strip_text:
  "sr_text (stripHeartbeatToken (Some raw) mode maxAckChars) =
     (if shouldSkip (stripHeartbeatToken (Some raw) mode maxAckChars) then []
      else if prefix HEARTBEAT_TOKEN (trim raw) \<or> suffix HEARTBEAT_TOKEN (trim raw)
      then fst (stripTokenAtEdges (trim raw))
      else trim raw)"
proof (cases "trim raw = []")
  case True
  then show ?thesis by (simp add: stripHeartbeatToken_def)
next
  case ne: False
  then have r: "raw \<noteq> []" by (auto simp: trim_Nil)
  show ?thesis
  proof (cases "prefix HEARTBEAT_TOKEN (trim raw) \<or> suffix HEARTBEAT_TOKEN (trim raw)")
    case True
    then have inc: "str_includes (trim raw) HEARTBEAT_TOKEN" by (rule edge_imp_includes)
    from True inc ne r show ?thesis
      by (simp add: stripHeartbeatToken_def Let_def stripTokenAtEdges_flag)
  next
    case False
    with ne r show ?thesis
      by (simp add: stripHeartbeatToken_def Let_def stripTokenAtEdges_flag)
  qed
qed

lemma collapse_ws_empty: "collapse_ws s = [] \<longleftrightarrow> s = []"
  by (cases s) simp_all

lemma collapse_ws_hd: "s \<noteq> [] \<Longrightarrow> \<not> is_ws (hd s) \<Longrightarrow> hd (collapse_ws s) = hd s"
  by (cases s) simp_all

lemma dropWhile_last: "xs \<noteq> [] \<Longrightarrow> \<not> P (last xs) \<Longrightarrow>
    dropWhile P xs \<noteq> [] \<and> last (dropWhile P xs) = last xs"
  by (induction xs) (auto split: if_splits)

lemma collapse_ws_last: "s \<noteq> [] \<Longrightarrow> \<not> is_ws (last s) \<Longrightarrow> last (collapse_ws s) = last s"
proof (induction s rule: collapse_ws.induct)
  case 1
  then show ?case by simp
next
  case (2 c cs)
  show ?case
  proof (cases "is_ws c")
    case True
    with 2(4) have cs: "cs \<noteq> []" and l: "\<not> is_ws (last cs)" by (auto split: if_splits)
    from dropWhile_last [where P = is_ws, OF cs l] have d: "dropWhile is_ws cs \<noteq> []"
      and dl: "last (dropWhile is_ws cs) = last cs" by simp_all
    from 2(1) [OF True d] dl l have "last (collapse_ws (dropWhile is_ws cs)) = last cs" by simp
    moreover have "collapse_ws (dropWhile is_ws cs) \<noteq> []" using d by (simp add: collapse_ws_empty)
    moreover have "collapse_ws (c # cs) = CHR '' '' # collapse_ws (dropWhile is_ws cs)"
      using True by simp
    moreover have "last (c # cs) = last cs" using cs by simp
    ultimately show ?thesis by (metis last_ConsR)
  next
    case False
    show ?thesis
    proof (cases "cs = []")
      case True
      with False show ?thesis by simp
    next
      case ne: False
      with 2(4) have "\<not> is_ws (last cs)" by simp
      from 2(2) [OF False ne this] False ne show ?thesis by (simp add: collapse_ws_empty)
    qed
  qed
qed

lemma collapse_ws_trimmed: "trim s = s \<Longrightarrow> trim (collapse_ws s) = collapse_ws s"
proof (cases "s = []")
  case True
  then show ?thesis by (simp add: trim_Nil)
next
  case False
  assume "trim s = s"
  from trim_edges [OF this] False have e: "\<not> is_ws (hd s)" "\<not> is_ws (last s)" by simp_all
  from collapse_ws_hd [OF False e(1)] collapse_ws_last [OF False e(2)] e
  show ?thesis by (intro trim_fix) simp
qed

lemma remainder_is_edge_stripped:
  assumes "trim response = pre @ rest @ post" "tokens_ws pre" "tokens_ws post"
    "trim rest = rest" "\<not> prefix HEARTBEAT_TOKEN rest" "\<not> suffix HEARTBEAT_TOKEN rest"
  shows "edge_stripped (trim response) = rest"
proof -
  from edge_stripped_removed [of "trim response"] obtain pre' post' where
    d: "trim response = pre' @ edge_stripped (trim response) @ post'"
    and w: "tokens_ws pre'" "tokens_ws post'" by blast
  from d assms(1) have "pre' @ edge_stripped (trim response) @ post' = pre @ rest @ post"
    by simp
  from remainder_unique [OF this w edge_stripped_trimmed [OF trim_idem]
      edge_stripped_no_prefix edge_stripped_no_suffix assms(2-)]
  show ?thesis .
qed

lemma remainder_is_edges_loop:
  assumes "trim response = pre @ rest @ post" "tokens_ws pre" "tokens_ws post"
    "trim rest = rest" "\<not> prefix HEARTBEAT_TOKEN rest" "\<not> suffix HEARTBEAT_TOKEN rest"
    and edge: "prefix HEARTBEAT_TOKEN (trim response) \<or> suffix HEARTBEAT_TOKEN (trim response)"
  shows "fst (stripTokenAtEdges (trim response)) = collapse_ws rest"
proof -
  from stripTokenAtEdges_removed [OF edge] obtain pre' mid post' where
    d: "trim response = pre' @ mid @ post'" and w: "tokens_ws pre'" "tokens_ws post'"
    and m: "trim mid = mid" "\<not> prefix HEARTBEAT_TOKEN mid" "\<not> suffix HEARTBEAT_TOKEN mid"
    and e: "fst (stripTokenAtEdges (trim response)) = trim (collapse_ws mid)" by blast
  from d assms(1) have "pre' @ mid @ post' = pre @ rest @ post" by simp
  from remainder_unique [OF this w m assms(2-6)] have "mid = rest" .
  with e collapse_ws_trimmed [OF assms(4)] show ?thesis by simp
qed

text \<open>
  C6, as the code has it. Write \<open>t\<close> for the trimmed response. The \<^emph>\<open>remainder\<close> of \<open>t\<close> is
  what is left when every token and every whitespace character is taken off both ends:
  \<open>t = pre @ rest @ post\<close> where \<open>pre\<close> and \<open>post\<close> are made of tokens and whitespace only,
  and \<open>rest\<close> has neither whitespace nor a token at its start or at its end. Such a
  remainder exists (the two loops of \<open>processHeartbeatResponse\<close> compute one), and for
  every such \<open>rest\<close>:

  \<^item> \<open>processHeartbeatResponse\<close> withholds the response exactly when \<open>t\<close> is empty, or \<open>t\<close>
    starts or ends with the token \<open>[HEARTBEAT_OK]\<close> and \<open>rest\<close> is empty or has at most
    \<open>ackMaxChars\<close> (default 30) characters. A withheld response has the empty text; a
    delivered one has \<open>rest\<close> when the token stood at an edge and \<open>t\<close> unchanged otherwise
    (a token elsewhere in the text stays).
  \<^item> \<open>stripHeartbeatToken\<close> of the reply pipeline skips exactly when \<open>t\<close> is empty, or \<open>t\<close>
    starts or ends with the token and \<open>rest\<close> is empty or, in mode \<open>heartbeat\<close> only, has
    at most \<open>max(0, maxAckChars)\<close> characters once its runs of whitespace are collapsed;
    what it delivers is \<open>rest\<close> with the runs of whitespace collapsed when the token stood
    at an edge, and \<open>t\<close> unchanged otherwise. A missing response is skipped.
\<close>

theorem heartbeat_suppression:
  "(\<exists>pre post. trim response = pre @ edge_stripped (trim response) @ post
       \<and> tokens_ws pre \<and> tokens_ws post)
   \<and> trim (edge_stripped (trim response)) = edge_stripped (trim response)
   \<and> \<not> prefix HEARTBEAT_TOKEN (edge_stripped (trim response))
   \<and> \<not> suffix HEARTBEAT_TOKEN (edge_stripped (trim response))
   \<and> (\<forall>pre rest post.
        trim response = pre @ rest @ post \<and> tokens_ws pre \<and> tokens_ws post
        \<and> trim rest = rest \<and> \<not> prefix HEARTBEAT_TOKEN rest \<and> \<not> suffix HEARTBEAT_TOKEN rest
        \<longrightarrow>
          shouldDeliver (processHeartbeatResponse response ackMaxChars) =
            (\<not> (trim response = [] \<or>
                ((prefix HEARTBEAT_TOKEN (trim response) \<or> suffix HEARTBEAT_TOKEN (trim response))
                 \<and> (rest = [] \<or>
                    int (length rest) \<le> (case ackMaxChars of None \<Rightarrow> 30 | Some n \<Rightarrow> n)))))
        \<and> hb_text (processHeartbeatResponse response ackMaxChars) =
            (if \<not> shouldDeliver (processHeartbeatResponse response ackMaxChars) then []
             else if prefix HEARTBEAT_TOKEN (trim response)
                     \<or> suffix HEARTBEAT_TOKEN (trim response)
             then rest
             else trim response)
        \<and> shouldSkip (stripHeartbeatToken (Some response) mode maxAckChars) =
            (trim response = [] \<or>
             ((prefix HEARTBEAT_TOKEN (trim response) \<or> suffix HEARTBEAT_TOKEN (trim response))
              \<and> (rest = [] \<or>
                 (mode = Some ModeHeartbeat \<and>
                  int (length (collapse_ws rest))
                    \<le> max 0 (case maxAckChars of
                               None \<Rightarrow> DEFAULT_HEARTBEAT_ACK_MAX_CHARS | Some n \<Rightarrow> n)))))
        \<and> sr_text (stripHeartbeatToken (Some response) mode maxAckChars) =
            (if shouldSkip (stripHeartbeatToken (Some response) mode maxAckChars) then []
             else if prefix HEARTBEAT_TOKEN (trim response)
                     \<or> suffix HEARTBEAT_TOKEN (trim response)
             then collapse_ws rest
             else trim response))
   \<and> shouldSkip (stripHeartbeatToken None mode maxAckChars)"
proof (intro conjI allI impI)
  show "\<exists>pre post. trim response = pre @ edge_stripped (trim response) @ post
          \<and> tokens_ws pre \<and> tokens_ws post"
    by (rule edge_stripped_removed)
  show "trim (edge_stripped (trim response)) = edge_stripped (trim response)"
    by (rule edge_stripped_trimmed [OF trim_idem])
  show "\<not> prefix HEARTBEAT_TOKEN (edge_stripped (trim response))"
    by (rule edge_stripped_no_prefix)
  show "\<not> suffix HEARTBEAT_TOKEN (edge_stripped (trim response))"
    by (rule edge_stripped_no_suffix)
  show "shouldSkip (stripHeartbeatToken None mode maxAckChars)"
    by (simp add: stripHeartbeatToken_def)
next
  fix pre rest post
  assume h: "trim response = pre @ rest @ post \<and> tokens_ws pre \<and> tokens_ws post
        \<and> trim rest = rest \<and> \<not> prefix HEARTBEAT_TOKEN rest \<and> \<not> suffix HEARTBEAT_TOKEN rest"
  then have d: "trim response = pre @ rest @ post" "tokens_ws pre" "tokens_ws post"
    "trim rest = rest" "\<not> prefix HEARTBEAT_TOKEN rest" "\<not> suffix HEARTBEAT_TOKEN rest"
    by simp_all
  note r = remainder_is_edge_stripped [OF d]
  show "shouldDeliver (processHeartbeatResponse response ackMaxChars) =
            (\<not> (trim response = [] \<or>
                ((prefix HEARTBEAT_TOKEN (trim response) \<or> suffix HEARTBEAT_TOKEN (trim response))
                 \<and> (rest = [] \<or>
                    int (length rest) \<le> (case ackMaxChars of None \<Rightarrow> 30 | Some n \<Rightarrow> n)))))"
    using process_shouldDeliver [of response ackMaxChars] unfolding r .
  show "hb_text (processHeartbeatResponse response ackMaxChars) =
            (if \<not> shouldDeliver (processHeartbeatResponse response ackMaxChars) then []
             else if prefix HEARTBEAT_TOKEN (trim response)
                     \<or> suffix HEARTBEAT_TOKEN (trim response)
             then rest
             else trim response)"
    using process_text [of response ackMaxChars] unfolding r .
  show "shouldSkip (stripHeartbeatToken (Some response) mode maxAckChars) =
            (trim response = [] \<or>
             ((prefix HEARTBEAT_TOKEN (trim response) \<or> suffix HEARTBEAT_TOKEN (trim response))
              \<and> (rest = [] \<or>
                 (mode = Some ModeHeartbeat \<and>
                  int (length (collapse_ws rest))
                    \<le> max 0 (case maxAckChars of
                               None \<Rightarrow> DEFAULT_HEARTBEAT_ACK_MAX_CHARS | Some n \<Rightarrow> n)))))"
  proof (cases "prefix HEARTBEAT_TOKEN (trim response) \<or> suffix HEARTBEAT_TOKEN (trim response)")
    case True
    from strip_shouldSkip [of response mode maxAckChars] True
    show ?thesis
      by (simp only: remainder_is_edges_loop [OF d True] collapse_ws_empty)
  next
    case False
    with strip_shouldSkip [of response mode maxAckChars] show ?thesis by simp
  qed
  show "sr_text (stripHeartbeatToken (Some response) mode maxAckChars) =
            (if shouldSkip (stripHeartbeatToken (Some response) mode maxAckChars) then []
             else if prefix HEARTBEAT_TOKEN (trim response)
                     \<or> suffix HEARTBEAT_TOKEN (trim response)
             then collapse_ws rest
             else trim response)"
  proof (cases "prefix HEARTBEAT_TOKEN (trim response) \<or> suffix HEARTBEAT_TOKEN (trim response)")
    case True
    from strip_text [of response mode maxAckChars] True
    show ?thesis by (simp only: remainder_is_edges_loop [OF d True])
  next
    case False
    with strip_text [of response mode maxAckChars] show ?thesis by simp
  qed
qed

lemmas hb_eval = processHeartbeatResponse_def stripHeartbeatToken_def stripTokenAtEdges_def
  edge_stripped_def strip_leading.simps strip_trailing.simps edges_loop.simps
  HEARTBEAT_TOKEN_def DEFAULT_HEARTBEAT_ACK_MAX_CHARS_def Let_def
  trim_def trimStart_def trimEnd_def is_ws_def suffix_to_prefix

lemma ack_trim:
  "trim (CHR 0xA0 # ''[HEARTBEAT_OK]  all   good '') = ''[HEARTBEAT_OK]  all   good''"
  by (simp add: trim_def trimStart_def trimEnd_def is_ws_def)

lemma ack_parts:
  "tokens_ws ''[HEARTBEAT_OK]  ''" "tokens_ws []" "trim ''all   good'' = ''all   good''"
  "\<not> prefix HEARTBEAT_TOKEN ''all   good''" "\<not> suffix HEARTBEAT_TOKEN ''all   good''"
  "collapse_ws ''all   good'' = ''all good''"
  by (simp_all add: tokens_ws.simps HEARTBEAT_TOKEN_def trim_def trimStart_def trimEnd_def
      is_ws_def suffix_to_prefix)

theorem heartbeat_suppression_witness:
  "processHeartbeatResponse (CHR 0xA0 # ''[HEARTBEAT_OK]  all   good '') None
     = \<lparr>hb_text = [], shouldDeliver = False\<rparr>
   \<and> processHeartbeatResponse (CHR 0xA0 # ''[HEARTBEAT_OK]  all   good '') (Some 5)
     = \<lparr>hb_text = ''all   good'', shouldDeliver = True\<rparr>
   \<and> shouldSkip (stripHeartbeatToken (Some (CHR 0xA0 # ''[HEARTBEAT_OK]  all   good ''))
        (Some ModeHeartbeat) None)
   \<and> \<not> shouldSkip (stripHeartbeatToken (Some (CHR 0xA0 # ''[HEARTBEAT_OK]  all   good ''))
          None None)
   \<and> sr_text (stripHeartbeatToken (Some (CHR 0xA0 # ''[HEARTBEAT_OK]  all   good ''))
          None None) = ''all good''"
proof -
  let ?r = "CHR 0xA0 # ''[HEARTBEAT_OK]  all   good ''"
  have d: "trim ?r = ''[HEARTBEAT_OK]  '' @ ''all   good'' @ []
           \<and> tokens_ws ''[HEARTBEAT_OK]  '' \<and> tokens_ws []
           \<and> trim ''all   good'' = ''all   good''
           \<and> \<not> prefix HEARTBEAT_TOKEN ''all   good''
           \<and> \<not> suffix HEARTBEAT_TOKEN ''all   good''"
    by (simp only: ack_trim ack_parts(1-5) append_Nil2 append.simps simp_thms)
  note a = heartbeat_suppression [of ?r None "Some ModeHeartbeat" None, THEN conjunct2,
      THEN conjunct2, THEN conjunct2, THEN conjunct2, THEN conjunct1, rule_format, OF d,
      unfolded ack_trim ack_parts(6)]
  note b = heartbeat_suppression [of ?r "Some 5" None None, THEN conjunct2,
      THEN conjunct2, THEN conjunct2, THEN conjunct2, THEN conjunct1, rule_format, OF d,
      unfolded ack_trim ack_parts(6)]
  have p1: "processHeartbeatResponse ?r None = \<lparr>hb_text = [], shouldDeliver = False\<rparr>"
    using a by (cases "processHeartbeatResponse ?r None") (simp add: HEARTBEAT_TOKEN_def)
  have p2: "processHeartbeatResponse ?r (Some 5)
              = \<lparr>hb_text = ''all   good'', shouldDeliver = True\<rparr>"
    using b by (cases "processHeartbeatResponse ?r (Some 5)") (simp add: HEARTBEAT_TOKEN_def)
  have s1: "shouldSkip (stripHeartbeatToken (Some ?r) (Some ModeHeartbeat) None)"
    using a by (simp add: HEARTBEAT_TOKEN_def DEFAULT_HEARTBEAT_ACK_MAX_CHARS_def)
  have s2: "\<not> shouldSkip (stripHeartbeatToken (Some ?r) None None)
            \<and> sr_text (stripHeartbeatToken (Some ?r) None None) = ''all good''"
    using b by (simp add: HEARTBEAT_TOKEN_def)
  from p1 p2 s1 s2 show ?thesis by simp
qed

text \<open>
  C6 as stated fails in both directions: a blank response is withheld although it holds
  no token, and \<open>ok [HEARTBEAT_OK] ok\<close>, the token with six characters around it, is
  delivered, and delivered unchanged.
\<close>

theorem heartbeat_suppression_counterexample:
  "processHeartbeatResponse ''  '' None = \<lparr>hb_text = [], shouldDeliver = False\<rparr>
   \<and> \<not> str_includes ''  '' HEARTBEAT_TOKEN
   \<and> processHeartbeatResponse ''ok [HEARTBEAT_OK] ok'' None
       = \<lparr>hb_text = ''ok [HEARTBEAT_OK] ok'', shouldDeliver = True\<rparr>"
  by (simp add: hb_eval)

text \<open>In the default mode \<open>message\<close> a short acknowledgement after the token is not skipped.\<close>

lemma message_mode_example:
  "stripHeartbeatToken (Some ''[HEARTBEAT_OK] ok'') None None
     = \<lparr>shouldSkip = False, sr_text = ''ok'', didStrip = True\<rparr>
   \<and> stripHeartbeatToken (Some ''[HEARTBEAT_OK] ok'') (Some ModeHeartbeat) None
     = \<lparr>shouldSkip = True, sr_text = [], didStrip = True\<rparr>"
  by (simp add: hb_eval)

text \<open>
  A no-break space (U+00A0) around the token is whitespace for \<open>trim\<close>, \<open>trimStart\<close> and
  \<open>trimEnd\<close>.
\<close>

lemma no_break_space_example:
  "processHeartbeatResponse ([CHR 0xA0] @ ''[HEARTBEAT_OK]'' @ [CHR 0xA0]) None
     = \<lparr>hb_text = [], shouldDeliver = False\<rparr>"
  by (simp add: hb_eval)

subsection \<open>Skill filtering\<close>

text \<open>Whatever the frontmatter holds, the metadata resolved from it has no \<open>requires\<close>.\<close>

lemma resolveClawdMetadata_no_requires:
  "resolveClawdMetadata json_parse frontmatter = Some md \<Longrightarrow> md_requires md = None"
  by (auto simp: resolveClawdMetadata_def Let_def split: option.splits if_splits)

text \<open>
  On an entry as it is given, \<open>shouldIncludeSkill\<close> computes the filter of the
  specification: not disabled, the platform listed when there is an \<open>os\<close> list, and
  \<open>always\<close> or every required binary and environment variable available.
\<close>

lemma include_logic:
  "(if en = Some False then False
    else if length osList > 0 \<and> p \<notin> set osList then False
    else if al = Some True then True
    else (if list_ex (\<lambda>b. \<not> hb b) bins then False else \<not> list_ex (\<lambda>e. \<not> es e) envs))
   = (en \<noteq> Some False \<and> (osList = [] \<or> p \<in> set osList) \<and>
      (al = Some True \<or> (list_all hb bins \<and> list_all es envs)))"
  by (auto simp: list_ex_iff list_all_iff)

lemma shouldIncludeSkill_iff:
  "shouldIncludeSkill process entry skills =
     ((case resolveSkillConfig skills (resolveSkillKey entry) of
         None \<Rightarrow> None | Some sc \<Rightarrow> sc_enabled sc) \<noteq> Some False
      \<and> (let osList = (case se_clawd entry of
                         None \<Rightarrow> []
                       | Some md \<Rightarrow> (case md_os md of None \<Rightarrow> [] | Some l \<Rightarrow> l))
         in osList = [] \<or> pr_platform process \<in> set osList)
      \<and> ((case se_clawd entry of None \<Rightarrow> None | Some md \<Rightarrow> md_always md) = Some True
         \<or> (let requires = (case se_clawd entry of None \<Rightarrow> None | Some md \<Rightarrow> md_requires md)
            in list_all (hasBinary process)
                 (case requires of
                    None \<Rightarrow> []
                  | Some r \<Rightarrow> (case rq_bins r of None \<Rightarrow> [] | Some l \<Rightarrow> l))
               \<and> list_all (env_satisfied process
                              (resolveSkillConfig skills (resolveSkillKey entry)) (se_clawd entry))
                   (case requires of
                      None \<Rightarrow> []
                    | Some r \<Rightarrow> (case rq_env r of None \<Rightarrow> [] | Some l \<Rightarrow> l)))))"
  unfolding shouldIncludeSkill_def Let_def by (rule include_logic)

lemma gh_entry_metadata:
  "se_clawd gh_entry =
     Some \<lparr>md_always = None, md_skillKey = None, md_primaryEnv = None, md_emoji = None,
           md_homepage = None, md_os = None, md_requires = None\<rparr>"
  by (simp add: gh_entry_def resolveClawdMetadata_def gh_frontmatter_def parse_gh_metadata_def
      gh_metadata_value_def gh_metadata_text_def obj_get_def normalizeStringList_def Let_def)

text \<open>
  C8 on the code: the skill \<open>github\<close> declares in its frontmatter metadata that it
  requires the binary \<open>gh\<close>; no directory of \<open>PATH\<close> holds it; the entry built from the
  frontmatter is kept all the same, because \<open>resolveClawdMetadata\<close> leaves \<open>requires\<close> out
  of the metadata and \<open>shouldIncludeSkill\<close> then finds no required binary to look for.
\<close>

theorem required_binary_not_enforced:
  "\<not> hasBinary bare_process ''gh''
   \<and> shouldIncludeSkill bare_process gh_entry None
   \<and> filterSkillEntries bare_process [gh_entry] None = [gh_entry]"
  by (simp add: filterSkillEntries_def shouldIncludeSkill_def gh_entry_metadata resolveSkillKey_def
      resolveSkillConfig_def hasBinary_def bare_process_def Let_def)


subsection \<open>Inline directives\<close>

lemma alpha_not_ws: "is_alpha c \<Longrightarrow> \<not> is_ws c"
  by (auto simp: is_alpha_def is_ws_def)

lemma alpha_level: "is_alpha c \<Longrightarrow> is_level_char c"
  by (simp add: is_level_char_def)
























lemma remove_first_at_start: "remove_first (CHR ''/'' # m) (CHR ''/'' # m @ rest) = rest"
  by simp









lemmas dir_eval = extractThinkDirective_def extractVerboseDirective_def extractAllDirectives_def
  match_here_def match_slash_def directive_tail_def lookahead_ok_def level_group.simps
  word_boundary_def is_alpha_def is_level_char_def is_word_char_def
  normalizeThinkLevel_def normalizeVerboseLevel_def
  trim_def trimStart_def trimEnd_def is_ws_def toLowerCase_def toLowerChar_def
  upper_chars_def lower_chars_def Let_def




text \<open>Scenario 1 of the specification.\<close>

lemma spec_directive_scenario:
  "extractAllDirectives ''/think high /v on draft a report'' =
     \<lparr>cleanedMessage = ''draft a report'', thinkLevel = Some ThinkHigh,
      verboseLevel = Some VerboseOn, hasDirectives = True\<rparr>"
  by (simp add: dir_eval)


end
